(* ===== verification/Prelude.thy ===== *)
theory Prelude
  imports Main
begin

text \<open>
  Shared vocabulary of the Connect-Four development: the names of grid cells and
  length-4 windows, the C \<open>int\<close> sentinels used by the search, the collection
  \<open>board_simps\<close> of rewrite rules for accesses to a grid in range, and generic
  lemmas on nested lists (the \<open>int pieces[ROWS][COLUMNS]\<close> array), on folds of
  \<open>max\<close>/\<open>min\<close> (the search's accumulators), on sums of bounded terms (the heuristic)
  and on lists that are a run of occupied cells followed by empty ones (gravity).
\<close>

named_theorems board_simps "rewrite rules for in-range accesses to the board grid"

type_synonym cell = "nat \<times> nat" \<comment> \<open>(row, column), row 0 is the top row\<close>
type_synonym window = "cell list" \<comment> \<open>the four cells of a line, in the order the code reads them\<close>

definition INT_MIN :: int where
  "INT_MIN = - (2 ^ 31)" \<comment> \<open>\<open>std::numeric_limits<int>::min()\<close> for a 32-bit \<open>int\<close>\<close>

definition INT_MAX :: int where
  "INT_MAX = 2 ^ 31 - 1" \<comment> \<open>\<open>std::numeric_limits<int>::max()\<close>\<close>

text \<open>
  A list is \<open>settled\<close> on \<open>e\<close> when an \<open>e\<close> is never followed by a non-\<open>e\<close>:
  read bottom-up, a column obeying gravity is settled on the empty piece.
\<close>

definition settled :: "'a \<Rightarrow> 'a list \<Rightarrow> bool" where
  "settled e xs \<longleftrightarrow> (\<forall>i. Suc i < length xs \<longrightarrow> xs ! i = e \<longrightarrow> xs ! Suc i = e)"

subsection \<open>Nested list update: the two-dimensional array\<close>

lemma nth_nested_update [board_simps]:
  "r < length g \<Longrightarrow>
   g[r := (g ! r)[c := x]] ! r' ! c' =
     (if r' = r \<and> c' = c \<and> c < length (g ! r) then x else g ! r' ! c')"
  by (cases "r' = r"; cases "c < length (g ! r)") (auto simp: nth_list_update list_update_beyond)

lemma nested_update_id [board_simps]:
  "g[r := (g ! r)[c := g ! r ! c]] = g"
  by simp

lemma nested_update_twice [board_simps]:
  "r < length g \<Longrightarrow> g[r := (g[r := (g ! r)[c := x]] ! r)[c := y]] = g[r := (g ! r)[c := y]]"
  by simp

lemma length_nested_update [board_simps]:
  "length (g[r := (g ! r)[c := x]]) = length g"
  by simp

lemma set_nested_update_lengths:
  assumes "\<forall>row \<in> set g. length row = n"
  shows "\<forall>row \<in> set (g[r := (g ! r)[c := x]]). length row = n"
proof (cases "r < length g")
  case True
  then have "length ((g ! r)[c := x]) = n" using assms by simp
  with assms show ?thesis by (auto dest: set_update_subset_insert [THEN subsetD])
next
  case False
  with assms show ?thesis by (simp add: list_update_beyond)
qed

lemma count_list_update:
  "i < length xs \<Longrightarrow>
   count_list (xs[i := x]) p + (if xs ! i = p then 1 else 0) = count_list xs p + (if x = p then 1 else 0)"
proof (induction xs arbitrary: i)
  case Nil
  then show ?case by simp
next
  case (Cons y ys)
  show ?case
  proof (cases i)
    case 0
    then show ?thesis by simp
  next
    case (Suc j)
    with Cons.prems have "count_list (ys[j := x]) p + (if ys ! j = p then 1 else 0) =
        count_list ys p + (if x = p then 1 else 0)" by (intro Cons.IH) simp
    with Suc show ?thesis by (simp split: if_split_asm)
  qed
qed

lemma count_list_concat_nested_update:
  assumes "r < length g" "c < length (g ! r)"
  shows "count_list (concat (g[r := (g ! r)[c := x]])) p + (if g ! r ! c = p then 1 else 0) =
         count_list (concat g) p + (if x = p then 1 else 0)"
proof -
  have g: "g = take r g @ g ! r # drop (Suc r) g" using assms(1) by (simp add: id_take_nth_drop)
  have "g[r := (g ! r)[c := x]] = take r g @ (g ! r)[c := x] # drop (Suc r) g"
    using assms(1) by (simp add: upd_conv_take_nth_drop)
  then have "count_list (concat (g[r := (g ! r)[c := x]])) p =
      count_list (concat (take r g)) p + count_list ((g ! r)[c := x]) p + count_list (concat (drop (Suc r) g)) p"
    by simp
  moreover have "count_list (concat g) p =
      count_list (concat (take r g)) p + count_list (g ! r) p + count_list (concat (drop (Suc r) g)) p"
    by (subst g) simp
  ultimately show ?thesis using count_list_update [OF assms(2), of x p] by simp
qed

lemma length_concat_rows:
  "\<forall>row \<in> set g. length row = n \<Longrightarrow> length (concat g) = length g * n"
  by (induction g) auto

lemma count_list_replicate_same: "count_list (replicate n x) x = n"
  by (induction n) auto

lemma count_list_concat_replicate:
  "count_list (concat (replicate m (replicate n x))) x = m * n"
  by (induction m) (auto simp: count_list_replicate_same)

subsection \<open>Folds of max and min\<close>

lemma foldr_max_pull:
  "foldr max xs (max a b) = max a (foldr max xs (b :: 'a :: linorder))"
  by (induction xs) (simp_all add: max.left_commute)

lemma foldr_min_pull:
  "foldr min xs (min a b) = min a (foldr min xs (b :: 'a :: linorder))"
  by (induction xs) (simp_all add: min.left_commute)

lemma foldl_max_foldr:
  "foldl max a xs = foldr max xs (a :: 'a :: linorder)"
  by (induction xs arbitrary: a) (simp_all add: foldr_max_pull max.commute)

lemma foldl_min_foldr:
  "foldl min a xs = foldr min xs (a :: 'a :: linorder)"
  by (induction xs arbitrary: a) (simp_all add: foldr_min_pull min.commute)

lemma foldr_max_le_iff:
  "foldr max xs a \<le> (k :: 'a :: linorder) \<longleftrightarrow> a \<le> k \<and> (\<forall>x \<in> set xs. x \<le> k)"
  by (induction xs) auto

lemma foldr_min_ge_iff:
  "(k :: 'a :: linorder) \<le> foldr min xs a \<longleftrightarrow> k \<le> a \<and> (\<forall>x \<in> set xs. k \<le> x)"
  by (induction xs) auto

lemma foldr_min_le_member:
  "x \<in> set xs \<Longrightarrow> x \<le> (k :: 'a :: linorder) \<Longrightarrow> foldr min xs a \<le> k"
  by (induction xs) (auto simp: min.coboundedI1 min.coboundedI2)

lemma foldr_max_ge_member:
  "x \<in> set xs \<Longrightarrow> (k :: 'a :: linorder) \<le> x \<Longrightarrow> k \<le> foldr max xs a"
  by (induction xs) (auto simp: max.coboundedI1 max.coboundedI2)

subsection \<open>Sums of bounded terms\<close>

lemma abs_sum_list_le:
  "(\<And>x. x \<in> set xs \<Longrightarrow> \<bar>f x\<bar> \<le> (k :: int)) \<Longrightarrow> \<bar>\<Sum>x\<leftarrow>xs. f x\<bar> \<le> int (length xs) * k"
proof (induction xs)
  case Nil
  then show ?case by simp
next
  case (Cons y ys)
  then have "\<bar>f y\<bar> \<le> k" and "\<bar>\<Sum>x\<leftarrow>ys. f x\<bar> \<le> int (length ys) * k" by auto
  moreover have "\<bar>f y + (\<Sum>x\<leftarrow>ys. f x)\<bar> \<le> \<bar>f y\<bar> + \<bar>\<Sum>x\<leftarrow>ys. f x\<bar>"
    by (rule abs_triangle_ineq)
  ultimately show ?case by (simp add: algebra_simps)
qed

subsection \<open>Four-element quantifiers\<close>

lemma replicate_four: "replicate 4 x = [x, x, x, x]"
  by (simp add: numeral_eq_Suc)

lemma all_less_four:
  "(\<forall>k < 4. P (k :: nat)) \<longleftrightarrow> P 0 \<and> P 1 \<and> P 2 \<and> P 3"
  by (auto simp: less_Suc_eq numeral_eq_Suc)

subsection \<open>Settled lists: a run of non-\<open>e\<close> values, then only \<open>e\<close>\<close>

lemma settled_upward:
  assumes "settled e xs" "xs ! k = e" "k \<le> j" "j < length xs"
  shows "xs ! j = e"
  using assms(3,4)
proof (induction j)
  case 0
  with assms(2) show ?case by simp
next
  case (Suc j)
  show ?case
  proof (cases "k = Suc j")
    case True
    with assms(2) show ?thesis by simp
  next
    case False
    with Suc.prems have "xs ! j = e" by (intro Suc.IH) auto
    with assms(1) Suc.prems show ?thesis by (simp add: settled_def)
  qed
qed

lemma settled_nth_iff:
  assumes "settled e xs" "i < length xs"
  shows "xs ! i = e \<longleftrightarrow> length (takeWhile (\<lambda>x. x \<noteq> e) xs) \<le> i"
proof
  assume "xs ! i = e"
  show "length (takeWhile (\<lambda>x. x \<noteq> e) xs) \<le> i"
  proof (rule ccontr)
    assume "\<not> ?thesis"
    then have "takeWhile (\<lambda>x. x \<noteq> e) xs ! i = xs ! i" by (simp add: takeWhile_nth)
    moreover from \<open>\<not> ?thesis\<close> have "takeWhile (\<lambda>x. x \<noteq> e) xs ! i \<in> set (takeWhile (\<lambda>x. x \<noteq> e) xs)"
      by simp
    ultimately show False using \<open>xs ! i = e\<close> by (auto dest: set_takeWhileD)
  qed
next
  let ?k = "length (takeWhile (\<lambda>x. x \<noteq> e) xs)"
  assume "?k \<le> i"
  with assms(2) have "?k < length xs" by simp
  then have "xs ! ?k = e" using nth_length_takeWhile by blast
  show "xs ! i = e"
    by (rule settled_upward [OF assms(1) \<open>xs ! ?k = e\<close> \<open>?k \<le> i\<close> assms(2)])
qed

lemma settled_update_top:
  assumes "settled e xs" "k = length (takeWhile (\<lambda>x. x \<noteq> e) xs)" "k < length xs" "p \<noteq> e"
  shows "settled e (xs[k := p])"
    and "takeWhile (\<lambda>x. x \<noteq> e) (xs[k := p]) = takeWhile (\<lambda>x. x \<noteq> e) xs @ [p]"
proof -
  have below: "xs ! j \<noteq> e" if "j < k" for j
  proof -
    have "j < length xs" using that assms(3) by simp
    then show ?thesis using settled_nth_iff [OF assms(1)] assms(2) that by simp
  qed
  have above: "xs ! j = e" if "k < j" "j < length xs" for j
    using settled_nth_iff [OF assms(1) that(2)] assms(2) that(1) by simp
  show "settled e (xs[k := p])"
    unfolding settled_def
  proof (intro allI impI)
    fix i assume "Suc i < length (xs[k := p])" "xs[k := p] ! i = e"
    then show "xs[k := p] ! Suc i = e"
      using below above assms(4) by (cases "i < k"; cases "i = k") (auto simp: nth_list_update)
  qed
  have "xs = take k xs @ xs ! k # drop (Suc k) xs"
    using assms(3) by (simp add: id_take_nth_drop)
  moreover have "takeWhile (\<lambda>x. x \<noteq> e) xs = take k xs"
    using assms(2) by (metis takeWhile_eq_take)
  moreover have "\<forall>x \<in> set (take k xs). x \<noteq> e"
    using below by (metis in_set_conv_nth length_take min_less_iff_conj nth_take)
  moreover have "takeWhile (\<lambda>x. x \<noteq> e) (drop (Suc k) xs) = []"
    using above by (cases "Suc k < length xs") (auto simp: hd_drop_conv_nth takeWhile_eq_Nil_iff)
  ultimately show "takeWhile (\<lambda>x. x \<noteq> e) (xs[k := p]) = takeWhile (\<lambda>x. x \<noteq> e) xs @ [p]"
    using assms(3,4) by (auto simp: upd_conv_take_nth_drop takeWhile_append2 neq_Nil_conv)
qed

subsection \<open>Keeping the first strict maximum\<close>

text \<open>
  The selection loop of \<open>computeMove\<close>: a candidate replaces the incumbent only when
  its value is strictly greater, so over an ascending list of candidates the result is
  the lowest candidate of maximal value (when some candidate beats the start value).
\<close>

lemma foldl_first_max:
  fixes f :: "nat \<Rightarrow> 'a :: linorder"
  assumes "sorted_wrt (<) cs"
    and "foldl (\<lambda>(bv, mv) c. if bv < f c then (f c, c) else (bv, mv)) (bv0, mv0) cs = (bv, mv)"
  shows "bv0 \<le> bv \<and> (\<forall>c \<in> set cs. f c \<le> bv) \<and>
         ((bv = bv0 \<and> mv = mv0) \<or>
          (mv \<in> set cs \<and> f mv = bv \<and> bv0 < bv \<and> (\<forall>c \<in> set cs. c < mv \<longrightarrow> f c < bv)))"
  using assms
proof (induction cs arbitrary: bv0 mv0)
  case Nil
  then show ?case by simp
next
  case (Cons c cs)
  have sorted: "sorted_wrt (<) cs" and above: "\<forall>c' \<in> set cs. c < c'" using Cons.prems(1) by simp_all
  show ?case
  proof (cases "bv0 < f c")
    case True
    with Cons.prems(2) have "foldl (\<lambda>(bv, mv) c. if bv < f c then (f c, c) else (bv, mv)) (f c, c) cs = (bv, mv)"
      by simp
    from Cons.IH [OF sorted this] True above show ?thesis by auto
  next
    case False
    with Cons.prems(2) have "foldl (\<lambda>(bv, mv) c. if bv < f c then (f c, c) else (bv, mv)) (bv0, mv0) cs = (bv, mv)"
      by simp
    from Cons.IH [OF sorted this] False show ?thesis by force
  qed
qed

end
