(* ===== verification/Board.thy ===== *)
theory Board
  imports Prelude
begin

text \<open>
  The board engine of \<open>src/board.h\<close>: class \<open>Board\<close> with its grid
  \<open>int pieces[ROWS][COLUMNS]\<close> (a record with one field holding the rows, row 0 on
  top), the piece and win-state codes (datatypes with the source's constant names),
  and one definition per member function: \<open>reset\<close> and the constructor, \<open>getPiece\<close>,
  \<open>setPiece\<close>, \<open>addMove\<close> (gravity placement; its fall-through on a full column,
  undefined in C++, is the error \<open>InvalidMove\<close>), \<open>checkWin\<close> (the three scans of
  length-4 windows in the code's order, then the top-row test), \<open>isColumnOpen\<close>,
  \<open>winStateToPiece\<close> and \<open>pieceToWinState\<close>.  The loops of \<open>checkWin\<close> are the
  window lists \<open>vertical_windows\<close>, \<open>horizontal_windows\<close> and \<open>diagonal_windows\<close>,
  enumerated in the order of the nested \<open>for\<close> loops.  The theory also states the
  board's invariants (\<open>wf_board\<close>: 6 rows of 7 cells; \<open>gravity\<close>) and the column
  abstraction (\<open>column\<close>, \<open>height\<close>) used to specify \<open>addMove\<close>.
\<close>

section \<open>Data\<close>

definition ROWS :: nat where
  "ROWS = 6"

definition COLUMNS :: nat where
  "COLUMNS = 7"

datatype piece = PIECE_EMPTY | PIECE_A | PIECE_B

datatype win_state =
  WIN_STATE_NOT_FINISHED | WIN_STATE_DRAW | WIN_STATE_A | WIN_STATE_B

datatype error = InvalidMove

record board =
  pieces :: "piece list list"

section \<open>Member functions\<close>

definition getPiece :: "board \<Rightarrow> nat \<Rightarrow> nat \<Rightarrow> piece" where
  "getPiece b row col = pieces b ! row ! col"

definition setPiece :: "board \<Rightarrow> nat \<Rightarrow> nat \<Rightarrow> piece \<Rightarrow> board" where
  "setPiece b row col piece = b\<lparr>pieces := (pieces b)[row := (pieces b ! row)[col := piece]]\<rparr>"

definition reset :: "board \<Rightarrow> board" where
  "reset b =
     fold (\<lambda>r b. fold (\<lambda>c b. setPiece b r c PIECE_EMPTY) [0..<COLUMNS] b) [0..<ROWS] b"

text \<open>The constructor runs \<open>reset\<close> on freshly allocated, uninitialised memory.\<close>

definition new_Board :: board where
  "new_Board = reset \<lparr>pieces = replicate ROWS (replicate COLUMNS undefined)\<rparr>"

text \<open>
  \<open>addMove\<close>: the loop \<open>for (row = ROWS - 1; row >= 0; row--)\<close> runs over the
  rows bottom-up; falling out of it (a full column) returns no value in C++.
\<close>

fun addMove_loop :: "board \<Rightarrow> nat \<Rightarrow> piece \<Rightarrow> nat list \<Rightarrow> error + nat \<times> board" where
  "addMove_loop b col piece [] = Inl InvalidMove"
| "addMove_loop b col piece (row # rows) =
     (if getPiece b row col = PIECE_EMPTY then Inr (row, setPiece b row col piece)
      else addMove_loop b col piece rows)"

definition addMove :: "board \<Rightarrow> nat \<Rightarrow> piece \<Rightarrow> error + nat \<times> board" where
  "addMove b col piece = addMove_loop b col piece (rev [0..<ROWS])"

text \<open>The windows scanned by \<open>checkWin\<close>, in the order of its nested loops.\<close>

definition vertical_windows :: "window list" where
  "vertical_windows =
     [[(r, c), (r + 1, c), (r + 2, c), (r + 3, c)]. c \<leftarrow> [0..<COLUMNS], r \<leftarrow> [0..<ROWS - 3]]"

definition horizontal_windows :: "window list" where
  "horizontal_windows =
     [[(r, c), (r, c + 1), (r, c + 2), (r, c + 3)]. r \<leftarrow> [0..<ROWS], c \<leftarrow> [0..<COLUMNS - 3]]"

definition diagonal_windows :: "window list" where
  "diagonal_windows =
     concat [[[(r, c), (r + 1, c + 1), (r + 2, c + 2), (r + 3, c + 3)],
              [(r + 3, c), (r + 2, c + 1), (r + 1, c + 2), (r, c + 3)]].
             c \<leftarrow> [0..<COLUMNS - 3], r \<leftarrow> [0..<ROWS - 3]]"

definition all_windows :: "window list" where
  "all_windows = vertical_windows @ horizontal_windows @ diagonal_windows"

definition window_cells :: "board \<Rightarrow> window \<Rightarrow> piece list" where
  "window_cells b w = map (\<lambda>(r, c). getPiece b r c) w"

fun checkWin_scan :: "board \<Rightarrow> window list \<Rightarrow> win_state option" where
  "checkWin_scan b [] = None"
| "checkWin_scan b (w # ws) =
     (if window_cells b w = replicate 4 PIECE_A then Some WIN_STATE_A
      else if window_cells b w = replicate 4 PIECE_B then Some WIN_STATE_B
      else checkWin_scan b ws)"

definition checkWin :: "board \<Rightarrow> win_state" where
  "checkWin b =
     (case checkWin_scan b all_windows of
        Some s \<Rightarrow> s
      | None \<Rightarrow>
          if list_ex (\<lambda>i. getPiece b 0 i = PIECE_EMPTY) [0..<COLUMNS]
          then WIN_STATE_NOT_FINISHED else WIN_STATE_DRAW)"

definition isColumnOpen :: "board \<Rightarrow> nat \<Rightarrow> bool" where
  "isColumnOpen b col \<longleftrightarrow> getPiece b 0 col = PIECE_EMPTY"

fun winStateToPiece :: "win_state \<Rightarrow> piece" where
  "winStateToPiece WIN_STATE_A = PIECE_A"
| "winStateToPiece WIN_STATE_B = PIECE_B"
| "winStateToPiece _ = PIECE_EMPTY"

fun pieceToWinState :: "piece \<Rightarrow> win_state" where
  "pieceToWinState PIECE_A = WIN_STATE_A"
| "pieceToWinState PIECE_B = WIN_STATE_B"
| "pieceToWinState _ = WIN_STATE_NOT_FINISHED"

section \<open>Invariants and abstractions\<close>

definition wf_board :: "board \<Rightarrow> bool" where
  "wf_board b \<longleftrightarrow> length (pieces b) = ROWS \<and> list_all (\<lambda>row. length row = COLUMNS) (pieces b)"

text \<open>Gravity: no occupied cell has an empty cell directly below it.\<close>

definition gravity :: "board \<Rightarrow> bool" where
  "gravity b \<longleftrightarrow>
     list_all (\<lambda>c. list_all (\<lambda>r. getPiece b r c \<noteq> PIECE_EMPTY \<longrightarrow> getPiece b (Suc r) c \<noteq> PIECE_EMPTY)
                 [0..<ROWS - 1]) [0..<COLUMNS]"

text \<open>A column read bottom-up, and the number of occupied cells at its bottom.\<close>

definition column :: "board \<Rightarrow> nat \<Rightarrow> piece list" where
  "column b c = map (\<lambda>r. getPiece b r c) (rev [0..<ROWS])"

definition height :: "board \<Rightarrow> nat \<Rightarrow> nat" where
  "height b c = length (takeWhile (\<lambda>p. p \<noteq> PIECE_EMPTY) (column b c))"

text \<open>The number of cells holding a piece code.\<close>

definition count_piece :: "board \<Rightarrow> piece \<Rightarrow> nat" where
  "count_piece b p = count_list (concat (pieces b)) p"

text \<open>The abstract column: the stack of pieces it holds, bottom first.\<close>

definition stack :: "board \<Rightarrow> nat \<Rightarrow> piece list" where
  "stack b c = takeWhile (\<lambda>p. p \<noteq> PIECE_EMPTY) (column b c)"

definition empty_board :: board where
  "empty_board = \<lparr>pieces = replicate ROWS (replicate COLUMNS PIECE_EMPTY)\<rparr>"

text \<open>Example positions used by the witnesses.\<close>

definition example_padded :: board where
  "example_padded =
     \<lparr>pieces = map (\<lambda>row. row @ [PIECE_A]) (pieces empty_board) @ [replicate (Suc COLUMNS) PIECE_B]\<rparr>"

definition example_column :: board where
  "example_column = setPiece (setPiece empty_board 5 3 PIECE_B) 4 3 PIECE_A"

definition example_full_column :: board where
  "example_full_column = fold (\<lambda>r b. setPiece b r 0 (if even r then PIECE_A else PIECE_B)) [0..<ROWS] empty_board"

section \<open>Cell access\<close>

lemma wf_boardD:
  "wf_board b \<Longrightarrow> length (pieces b) = ROWS"
  "wf_board b \<Longrightarrow> r < ROWS \<Longrightarrow> length (pieces b ! r) = COLUMNS"
  by (auto simp: wf_board_def list_all_length)

lemma board_eqI:
  assumes "wf_board b" "wf_board b'"
    and "\<And>r c. r < ROWS \<Longrightarrow> c < COLUMNS \<Longrightarrow> getPiece b r c = getPiece b' r c"
  shows "b = b'"
proof -
  have "pieces b = pieces b'"
  proof (rule nth_equalityI)
    show "length (pieces b) = length (pieces b')" using assms(1,2) by (simp add: wf_boardD)
  next
    fix r assume "r < length (pieces b)"
    then have r: "r < ROWS" using assms(1) by (simp add: wf_boardD)
    show "pieces b ! r = pieces b' ! r"
      by (rule nth_equalityI) (use r assms in \<open>auto simp: wf_boardD getPiece_def\<close>)
  qed
  then show ?thesis by simp
qed

lemma wf_setPiece [board_simps]:
  "wf_board b \<Longrightarrow> wf_board (setPiece b r c p)"
  using set_nested_update_lengths [of "pieces b" COLUMNS r c p]
  by (simp add: wf_board_def setPiece_def list_all_iff)

lemma getPiece_setPiece [board_simps]:
  "wf_board b \<Longrightarrow> r < ROWS \<Longrightarrow> c < COLUMNS \<Longrightarrow>
   getPiece (setPiece b r c p) r' c' = (if r' = r \<and> c' = c then p else getPiece b r' c')"
  by (simp add: getPiece_def setPiece_def nth_nested_update wf_boardD)

lemma setPiece_getPiece [board_simps]:
  "setPiece b r c (getPiece b r c) = b"
  by (simp add: getPiece_def setPiece_def)

lemma setPiece_setPiece [board_simps]:
  "wf_board b \<Longrightarrow> r < ROWS \<Longrightarrow> setPiece (setPiece b r c x) r c y = setPiece b r c y"
  by (simp add: setPiece_def wf_boardD)

lemma setPiece_restore:
  "wf_board b \<Longrightarrow> r < ROWS \<Longrightarrow> getPiece b r c = x \<Longrightarrow> setPiece (setPiece b r c p) r c x = b"
  by (auto simp: setPiece_setPiece setPiece_getPiece)

section \<open>Columns\<close>

lemma length_column [simp]: "length (column b c) = ROWS"
  by (simp add: column_def)

lemma nth_column [board_simps]:
  "i < ROWS \<Longrightarrow> column b c ! i = getPiece b (ROWS - 1 - i) c"
  by (simp add: column_def rev_nth)

lemma height_le: "height b c \<le> ROWS"
  unfolding height_def by (metis length_column length_takeWhile_le)

lemma height_takeWhile_rows:
  "height b c = length (takeWhile (\<lambda>r. getPiece b r c \<noteq> PIECE_EMPTY) (rev [0..<ROWS]))"
  by (simp add: height_def column_def takeWhile_map comp_def)

lemma column_setPiece [board_simps]:
  assumes "wf_board b" "r < ROWS" "c < COLUMNS"
  shows "column (setPiece b r c p) c' = (if c' = c then (column b c)[ROWS - 1 - r := p] else column b c')"
  by (rule nth_equalityI) (use assms in \<open>auto simp: nth_column getPiece_setPiece nth_list_update\<close>)

lemma gravity_settled:
  "gravity b \<longleftrightarrow> (\<forall>c < COLUMNS. settled PIECE_EMPTY (column b c))"
proof -
  have "(\<forall>r < ROWS - 1. getPiece b r c \<noteq> PIECE_EMPTY \<longrightarrow> getPiece b (Suc r) c \<noteq> PIECE_EMPTY) \<longleftrightarrow>
        settled PIECE_EMPTY (column b c)" for c
  proof
    assume H: "\<forall>r < ROWS - 1. getPiece b r c \<noteq> PIECE_EMPTY \<longrightarrow> getPiece b (Suc r) c \<noteq> PIECE_EMPTY"
    show "settled PIECE_EMPTY (column b c)"
      unfolding settled_def
    proof (intro allI impI)
      fix i assume "Suc i < length (column b c)" "column b c ! i = PIECE_EMPTY"
      moreover have "ROWS - 1 - Suc i < ROWS - 1" and "Suc (ROWS - 1 - Suc i) = ROWS - 1 - i"
        using calculation(1) by simp_all
      ultimately show "column b c ! Suc i = PIECE_EMPTY"
        using H by (metis length_column nth_column Suc_lessD)
    qed
  next
    assume S: "settled PIECE_EMPTY (column b c)"
    show "\<forall>r < ROWS - 1. getPiece b r c \<noteq> PIECE_EMPTY \<longrightarrow> getPiece b (Suc r) c \<noteq> PIECE_EMPTY"
    proof (intro allI impI)
      fix r assume r: "r < ROWS - 1" and occ: "getPiece b r c \<noteq> PIECE_EMPTY"
      let ?i = "ROWS - 2 - r"
      have "Suc ?i < length (column b c)" "column b c ! Suc ?i = getPiece b r c"
        "column b c ! ?i = getPiece b (Suc r) c"
        using r by (simp_all add: nth_column ROWS_def)
      then show "getPiece b (Suc r) c \<noteq> PIECE_EMPTY"
        using S occ unfolding settled_def by metis
    qed
  qed
  then show ?thesis
    unfolding gravity_def list_all_iff set_upt Ball_def atLeastLessThan_iff by simp
qed

section \<open>addMove\<close>

lemma addMove_loop_eq:
  "addMove_loop b col p rows =
     (case dropWhile (\<lambda>r. getPiece b r col \<noteq> PIECE_EMPTY) rows of
        [] \<Rightarrow> Inl InvalidMove
      | row # _ \<Rightarrow> Inr (row, setPiece b row col p))"
  by (induction rows) auto

text \<open>
  \<open>addMove\<close> lands at the first empty cell from the bottom, \<open>ROWS - 1 - height\<close>,
  and fails exactly when the whole column is occupied; no invariant is needed.
\<close>

lemma addMove_eq:
  "addMove b col p =
     (if height b col < ROWS
      then Inr (ROWS - 1 - height b col, setPiece b (ROWS - 1 - height b col) col p)
      else Inl InvalidMove)"
proof -
  let ?P = "\<lambda>r. getPiece b r col \<noteq> PIECE_EMPTY" and ?rs = "rev [0..<ROWS]"
  have h: "height b col = length (takeWhile ?P ?rs)" by (rule height_takeWhile_rows)
  have d: "dropWhile ?P ?rs = drop (height b col) ?rs" by (simp add: h dropWhile_eq_drop)
  show ?thesis
  proof (cases "height b col < ROWS")
    case True
    then have "drop (height b col) ?rs = (ROWS - 1 - height b col) # drop (Suc (height b col)) ?rs"
      by (simp add: Cons_nth_drop_Suc [symmetric] rev_nth)
    with True d show ?thesis by (simp add: addMove_def addMove_loop_eq)
  next
    case False
    then have "height b col = ROWS" using height_le le_neq_implies_less by blast
    with d have "dropWhile ?P ?rs = []" by simp
    with False show ?thesis
      unfolding addMove_def addMove_loop_eq by (simp del: dropWhile_eq_Nil_conv)
  qed
qed

lemma takeWhile_stops:
  "i < length xs \<Longrightarrow> \<not> P (xs ! i) \<Longrightarrow> length (takeWhile P xs) \<le> i"
  by (metis le_less_linear nth_mem set_takeWhileD takeWhile_nth)

lemma open_height:
  "isColumnOpen b col \<Longrightarrow> height b col < ROWS"
proof -
  assume "isColumnOpen b col"
  then have "column b col ! (ROWS - 1) = PIECE_EMPTY"
    by (simp add: nth_column isColumnOpen_def ROWS_def)
  then have "height b col \<le> ROWS - 1"
    unfolding height_def by (intro takeWhile_stops) (simp_all add: ROWS_def)
  then show ?thesis by (simp add: ROWS_def)
qed

lemma addMove_open:
  assumes "isColumnOpen b col"
  obtains row where "row < ROWS" "getPiece b row col = PIECE_EMPTY"
    "addMove b col p = Inr (row, setPiece b row col p)"
proof -
  let ?row = "ROWS - 1 - height b col"
  have h: "height b col < ROWS" using assms by (rule open_height)
  have "column b col ! height b col = PIECE_EMPTY"
    using nth_length_takeWhile [of "\<lambda>p. p \<noteq> PIECE_EMPTY" "column b col"] h
    by (simp add: height_def)
  then have "getPiece b ?row col = PIECE_EMPTY" using h by (simp add: nth_column)
  moreover have "?row < ROWS" using h by simp
  ultimately show ?thesis using that h by (simp add: addMove_eq)
qed

lemma addMove_Inr_setPiece:
  assumes "addMove b col p = Inr (row, b')"
  shows "b' = setPiece b row col p" "row < ROWS" "getPiece b row col = PIECE_EMPTY"
proof -
  have h: "height b col < ROWS" and row: "row = ROWS - 1 - height b col"
    and "b' = setPiece b row col p"
    using assms by (auto simp: addMove_eq split: if_splits)
  then show "b' = setPiece b row col p" "row < ROWS" by simp_all
  have "column b col ! height b col = PIECE_EMPTY"
    using nth_length_takeWhile [of "\<lambda>p. p \<noteq> PIECE_EMPTY" "column b col"] h
    by (simp add: height_def)
  then show "getPiece b row col = PIECE_EMPTY" using h row by (simp add: nth_column)
qed

lemma height_stack: "height b c = length (stack b c)"
  by (simp add: height_def stack_def)

lemma settled_column:
  "gravity b \<Longrightarrow> c < COLUMNS \<Longrightarrow> settled PIECE_EMPTY (column b c)"
  by (simp add: gravity_settled)

lemma gravity_open_iff:
  assumes "gravity b" "col < COLUMNS"
  shows "isColumnOpen b col \<longleftrightarrow> height b col < ROWS"
proof
  assume "height b col < ROWS"
  then have "column b col ! (ROWS - 1) = PIECE_EMPTY"
    using settled_nth_iff [OF settled_column [OF assms], of "ROWS - 1"]
    by (simp add: height_def ROWS_def)
  then show "isColumnOpen b col" by (simp add: nth_column isColumnOpen_def ROWS_def)
qed (rule open_height)

lemma addMove_full:
  "gravity b \<Longrightarrow> col < COLUMNS \<Longrightarrow> \<not> isColumnOpen b col \<Longrightarrow> addMove b col p = Inl InvalidMove"
  by (simp add: addMove_eq gravity_open_iff)

lemma addMove_open_gravity:
  assumes "wf_board b" "gravity b" "col < COLUMNS" "isColumnOpen b col" "p \<noteq> PIECE_EMPTY"
  defines "b' \<equiv> setPiece b (ROWS - 1 - height b col) col p"
  shows "addMove b col p = Inr (ROWS - 1 - height b col, b')"
    and "stack b' col = stack b col @ [p]"
    and "\<And>c. c \<noteq> col \<Longrightarrow> column b' c = column b c"
    and "gravity b'" and "wf_board b'"
proof -
  have h: "height b col < ROWS" using assms(4) by (rule open_height)
  then show "addMove b col p = Inr (ROWS - 1 - height b col, b')" by (simp add: addMove_eq b'_def)
  have col': "column b' col = (column b col)[height b col := p]"
    using assms(1,3) h by (simp add: b'_def column_setPiece)
  have S: "settled PIECE_EMPTY (column b col)" using assms(2,3) by (rule settled_column)
  note upd = settled_update_top [OF S height_def [of b col] _ assms(5)]
  show "stack b' col = stack b col @ [p]" using upd(2) h col' by (simp add: stack_def)
  show other: "column b' c = column b c" if "c \<noteq> col" for c
    using assms(1,3) h that by (simp add: b'_def column_setPiece)
  show "wf_board b'" using assms(1) by (simp add: b'_def wf_setPiece)
  show "gravity b'"
    unfolding gravity_settled
  proof (intro allI impI)
    fix c assume "c < COLUMNS"
    then show "settled PIECE_EMPTY (column b' c)"
      using upd(1) h col' other settled_column [OF assms(2)] by (cases "c = col") simp_all
  qed
qed

section \<open>reset and the constructor\<close>

lemma fold_setPiece_row:
  assumes "wf_board b" "r < ROWS" "set cs \<subseteq> {..<COLUMNS}"
  shows "wf_board (fold (\<lambda>c b. setPiece b r c x) cs b) \<and>
         (\<forall>r' c'. getPiece (fold (\<lambda>c b. setPiece b r c x) cs b) r' c' =
                  (if r' = r \<and> c' \<in> set cs then x else getPiece b r' c'))"
  using assms by (induction cs arbitrary: b) (auto simp: wf_setPiece getPiece_setPiece)

lemma fold_setPiece_rows:
  assumes "wf_board b" "set rs \<subseteq> {..<ROWS}"
  shows "wf_board (fold (\<lambda>r b. fold (\<lambda>c b. setPiece b r c x) [0..<COLUMNS] b) rs b) \<and>
         (\<forall>r' c'. getPiece (fold (\<lambda>r b. fold (\<lambda>c b. setPiece b r c x) [0..<COLUMNS] b) rs b) r' c' =
                  (if r' \<in> set rs \<and> c' < COLUMNS then x else getPiece b r' c'))"
  using assms
proof (induction rs arbitrary: b)
  case Nil
  then show ?case by simp
next
  case (Cons r rs)
  let ?b1 = "fold (\<lambda>c b. setPiece b r c x) [0..<COLUMNS] b"
  have "r < ROWS" "set rs \<subseteq> {..<ROWS}" using Cons.prems by simp_all
  moreover have "set [0..<COLUMNS] \<subseteq> {..<COLUMNS}" by auto
  ultimately have H1: "wf_board ?b1"
    "\<And>r' c'. getPiece ?b1 r' c' = (if r' = r \<and> c' < COLUMNS then x else getPiece b r' c')"
    using fold_setPiece_row [OF Cons.prems(1)] by auto
  with Cons.IH [OF H1(1) \<open>set rs \<subseteq> {..<ROWS}\<close>] show ?case by auto
qed

lemma wf_empty_board [simp]: "wf_board empty_board"
  by (simp add: empty_board_def wf_board_def list_all_iff)

lemma getPiece_empty_board [board_simps]:
  "r < ROWS \<Longrightarrow> c < COLUMNS \<Longrightarrow> getPiece empty_board r c = PIECE_EMPTY"
  by (simp add: empty_board_def getPiece_def)

lemma reset_eq_empty_board:
  assumes "wf_board b"
  shows "reset b = empty_board"
proof (rule board_eqI)
  have "set [0..<ROWS] \<subseteq> {..<ROWS}" by auto
  note F = fold_setPiece_rows [OF assms this, of PIECE_EMPTY]
  show "wf_board (reset b)" using F by (simp add: reset_def)
  show "wf_board empty_board" by simp
  fix r c assume "r < ROWS" "c < COLUMNS"
  then show "getPiece (reset b) r c = getPiece empty_board r c"
    using F by (simp add: reset_def getPiece_empty_board)
qed

lemma new_Board_eq: "new_Board = empty_board"
  by (simp add: new_Board_def reset_eq_empty_board wf_board_def list_all_iff)

lemma checkWin_empty_board: "checkWin empty_board = WIN_STATE_NOT_FINISHED"
  by code_simp

lemma gravity_empty_board: "gravity empty_board"
  by (simp add: gravity_def list_all_iff getPiece_empty_board ROWS_def)

section \<open>Piece counts\<close>

lemma count_setPiece:
  assumes "wf_board b" "r < ROWS" "c < COLUMNS"
  shows "count_piece (setPiece b r c q) p + (if getPiece b r c = p then 1 else 0) =
         count_piece b p + (if q = p then 1 else 0)"
  using count_list_concat_nested_update [of r "pieces b" c q p] assms
  by (simp add: count_piece_def setPiece_def getPiece_def wf_boardD)

lemma count_setPiece_empty_cell:
  assumes "wf_board b" "r < ROWS" "c < COLUMNS" "getPiece b r c = PIECE_EMPTY" "q \<noteq> PIECE_EMPTY"
  shows "count_piece (setPiece b r c q) q = Suc (count_piece b q)"
    and "p \<noteq> q \<Longrightarrow> p \<noteq> PIECE_EMPTY \<Longrightarrow> count_piece (setPiece b r c q) p = count_piece b p"
    and "Suc (count_piece (setPiece b r c q) PIECE_EMPTY) = count_piece b PIECE_EMPTY"
  using count_setPiece [OF assms(1-3), of q q] count_setPiece [OF assms(1-3), of q p]
    count_setPiece [OF assms(1-3), of q PIECE_EMPTY] assms(4,5)
  by auto

lemma count_addMove:
  assumes "wf_board b" "col < COLUMNS" "isColumnOpen b col" "q \<noteq> PIECE_EMPTY"
    and "addMove b col q = Inr (row, b')"
  shows "count_piece b' q = Suc (count_piece b q)"
    and "p \<noteq> q \<Longrightarrow> p \<noteq> PIECE_EMPTY \<Longrightarrow> count_piece b' p = count_piece b p"
    and "Suc (count_piece b' PIECE_EMPTY) = count_piece b PIECE_EMPTY"
  using count_setPiece_empty_cell [OF assms(1) addMove_Inr_setPiece(2) [OF assms(5)] assms(2)
      addMove_Inr_setPiece(3) [OF assms(5)] assms(4)] addMove_Inr_setPiece(1) [OF assms(5)]
  by simp_all

lemma count_piece_le: "wf_board b \<Longrightarrow> count_piece b p \<le> ROWS * COLUMNS"
  using count_le_length [of "concat (pieces b)" p] length_concat_rows [of "pieces b" COLUMNS]
  by (simp add: count_piece_def wf_board_def list_all_iff)

lemma count_empty_board: "count_piece empty_board PIECE_EMPTY = ROWS * COLUMNS"
  by (simp add: count_piece_def empty_board_def count_list_concat_replicate)

lemma count_empty_board_piece: "p \<noteq> PIECE_EMPTY \<Longrightarrow> count_piece empty_board p = 0"
  by (simp add: count_piece_def empty_board_def count_list_0_iff ROWS_def COLUMNS_def)

section \<open>Win states and windows\<close>

lemma checkWin_scan_cong:
  "\<forall>w \<in> set ws. window_cells b w = window_cells b' w \<Longrightarrow> checkWin_scan b ws = checkWin_scan b' ws"
  by (induction ws) simp_all

lemma winStateToPiece_pieceToWinState: "winStateToPiece (pieceToWinState p) = p"
  by (cases p) simp_all

lemma length_all_windows: "length all_windows = 69"
  by code_simp

lemma all_windows_in_bounds:
  "w \<in> set all_windows \<Longrightarrow> length w = 4 \<and> (\<forall>(r, c) \<in> set w. r < ROWS \<and> c < COLUMNS)"
  by (auto simp: all_windows_def vertical_windows_def horizontal_windows_def diagonal_windows_def
                 ROWS_def COLUMNS_def)

section \<open>Properties of the board operations\<close>

text \<open>
  C4. Gravity placement: on a board obeying gravity, dropping a piece into an open
  column with \<open>k\<close> occupied cells lands at row \<open>ROWS - 1 - k\<close>, pushes the piece on
  the column's stack, leaves every other column unchanged and keeps gravity.
\<close>

theorem addMove_gravity:
  assumes "wf_board b" "gravity b" "col < COLUMNS" "isColumnOpen b col" "p \<noteq> PIECE_EMPTY"
  shows "\<exists>b'. addMove b col p = Inr (ROWS - 1 - height b col, b') \<and>
              stack b' col = stack b col @ [p] \<and>
              (\<forall>c. c \<noteq> col \<longrightarrow> column b' c = column b c) \<and> gravity b' \<and> wf_board b'"
  using addMove_open_gravity [OF assms] by blast

lemma example_column_facts:
  "wf_board example_column" "gravity example_column" "isColumnOpen example_column 3"
  "height example_column 3 = 2" "stack example_column 3 = [PIECE_B, PIECE_A]"
  by (simp_all add: example_column_def) code_simp+

theorem addMove_gravity_witness:
  "\<exists>b'. addMove example_column 3 PIECE_A = Inr (3, b') \<and>
        stack b' 3 = [PIECE_B, PIECE_A, PIECE_A] \<and> gravity b'"
  using addMove_gravity [of example_column 3 PIECE_A] example_column_facts
  by (simp add: ROWS_def COLUMNS_def) blast

text \<open>
  C15. Full column: on a board obeying gravity, \<open>addMove\<close> on a column whose top cell
  is occupied fails with \<open>InvalidMove\<close> (the C++ loop falls through without a
  return value) and places nothing.
\<close>

theorem addMove_full_column:
  "gravity b \<Longrightarrow> col < COLUMNS \<Longrightarrow> \<not> isColumnOpen b col \<Longrightarrow> addMove b col p = Inl InvalidMove"
  by (rule addMove_full)

theorem addMove_full_column_witness:
  "addMove example_full_column 0 PIECE_A = Inl InvalidMove"
proof -
  have "gravity example_full_column" "\<not> isColumnOpen example_full_column 0"
    by (simp_all add: example_full_column_def) code_simp+
  then show ?thesis using addMove_full_column [of example_full_column 0 PIECE_A]
    by (simp add: COLUMNS_def)
qed

text \<open>
  C19. Reset round trip: after \<open>reset\<close> every cell of the grid reads
  \<open>PIECE_EMPTY\<close>, and the grid keeps its shape.
\<close>

theorem reset_getPiece_empty:
  "wf_board b \<Longrightarrow> wf_board (reset b) \<and> (\<forall>r < ROWS. \<forall>c < COLUMNS. getPiece (reset b) r c = PIECE_EMPTY)"
  by (simp add: reset_eq_empty_board getPiece_empty_board)

theorem reset_getPiece_empty_witness:
  "getPiece (reset example_column) 5 3 = PIECE_EMPTY"
  using reset_getPiece_empty [of example_column] example_column_facts(1)
  by (simp add: ROWS_def COLUMNS_def)

text \<open>
  C20. Piece and win-state mapping: \<open>pieceToWinState\<close> followed by
  \<open>winStateToPiece\<close> is the identity on pieces (\<open>PIECE_EMPTY\<close> going through
  \<open>WIN_STATE_NOT_FINISHED\<close>), and the converse composition is the identity on every
  win state except \<open>WIN_STATE_DRAW\<close>, which maps to \<open>PIECE_EMPTY\<close>.
\<close>

theorem piece_win_state_roundtrip:
  "winStateToPiece (pieceToWinState p) = p \<and>
   (s \<noteq> WIN_STATE_DRAW \<longrightarrow> pieceToWinState (winStateToPiece s) = s) \<and>
   pieceToWinState (winStateToPiece WIN_STATE_DRAW) = WIN_STATE_NOT_FINISHED"
  by (cases p; cases s) simp_all

theorem piece_win_state_roundtrip_witness:
  "WIN_STATE_B \<noteq> WIN_STATE_DRAW \<and> pieceToWinState (winStateToPiece WIN_STATE_B) = WIN_STATE_B"
  using piece_win_state_roundtrip [of PIECE_A WIN_STATE_B] by simp

text \<open>
  C21. \<open>checkWin\<close> reads only the 6 x 7 grid: two boards that agree on every cell in
  range get the same answer, whatever they hold outside it (where \<open>getPiece\<close> would be
  undefined behaviour in C++).
\<close>

theorem checkWin_in_range_only:
  assumes "\<forall>r < ROWS. \<forall>c < COLUMNS. getPiece b r c = getPiece b' r c"
  shows "checkWin b = checkWin b'"
proof -
  have "\<forall>w \<in> set all_windows. window_cells b w = window_cells b' w"
    using all_windows_in_bounds assms by (fastforce simp: window_cells_def)
  then have "checkWin_scan b all_windows = checkWin_scan b' all_windows" by (rule checkWin_scan_cong)
  moreover have "list_ex (\<lambda>i. getPiece b 0 i = PIECE_EMPTY) [0..<COLUMNS] =
                 list_ex (\<lambda>i. getPiece b' 0 i = PIECE_EMPTY) [0..<COLUMNS]"
    using assms by (auto simp: list_ex_iff ROWS_def)
  ultimately show ?thesis by (simp add: checkWin_def)
qed

theorem checkWin_in_range_only_witness:
  "checkWin empty_board = checkWin example_padded"
proof -
  have "\<forall>r < ROWS. \<forall>c < COLUMNS. getPiece empty_board r c = getPiece example_padded r c"
    by (simp add: example_padded_def empty_board_def getPiece_def nth_append ROWS_def COLUMNS_def)
  then show ?thesis by (rule checkWin_in_range_only)
qed

end
