(* ===== verification/Win.thy ===== *)
theory Win
  imports Board
begin

text \<open>
  What \<open>Board::checkWin\<close> (\<open>src/board.h\<close>) promises, stated without its loops: a
  four-in-a-row of a piece in one of the four orientations (\<open>vertical_line\<close>,
  \<open>horizontal_line\<close>, \<open>diagonal_line\<close> for both diagonal families) anywhere on the
  grid, and an open cell in the top row.  The lemmas show that the three window lists
  enumerate exactly these lines, that \<open>checkWin\<close> reports a line of the piece it names,
  that it answers \<open>WIN_STATE_NOT_FINISHED\<close> and \<open>WIN_STATE_DRAW\<close> exactly in the
  specified situations, and that its scan order decides between simultaneous lines
  of both players: vertical before horizontal before diagonal.
\<close>

definition vertical_line :: "board \<Rightarrow> piece \<Rightarrow> bool" where
  "vertical_line b p \<longleftrightarrow>
     (\<exists>r c. r + 3 < ROWS \<and> c < COLUMNS \<and> (\<forall>k < 4. getPiece b (r + k) c = p))"

definition horizontal_line :: "board \<Rightarrow> piece \<Rightarrow> bool" where
  "horizontal_line b p \<longleftrightarrow>
     (\<exists>r c. r < ROWS \<and> c + 3 < COLUMNS \<and> (\<forall>k < 4. getPiece b r (c + k) = p))"

definition diagonal_line :: "board \<Rightarrow> piece \<Rightarrow> bool" where
  "diagonal_line b p \<longleftrightarrow>
     (\<exists>r c. r + 3 < ROWS \<and> c + 3 < COLUMNS \<and>
        ((\<forall>k < 4. getPiece b (r + k) (c + k) = p) \<or> (\<forall>k < 4. getPiece b (r + 3 - k) (c + k) = p)))"

definition has_line :: "board \<Rightarrow> piece \<Rightarrow> bool" where
  "has_line b p \<longleftrightarrow> vertical_line b p \<or> horizontal_line b p \<or> diagonal_line b p"

definition top_row_open :: "board \<Rightarrow> bool" where
  "top_row_open b \<longleftrightarrow> (\<exists>c < COLUMNS. getPiece b 0 c = PIECE_EMPTY)"

text \<open>Example positions (spec section 8) used by the witnesses.\<close>

definition example_bottom_A :: board where
  "example_bottom_A =
     fold (\<lambda>c b. setPiece b 5 c PIECE_A) [0, 1, 2, 3] empty_board"

definition example_vertical_B_horizontal_A :: board where
  "example_vertical_B_horizontal_A =
     fold (\<lambda>(r, c, p) b. setPiece b r c p)
       [(5, 0, PIECE_A), (5, 1, PIECE_A), (5, 2, PIECE_A), (5, 3, PIECE_A),
        (5, 4, PIECE_B), (4, 4, PIECE_B), (3, 4, PIECE_B), (2, 4, PIECE_B)] empty_board"

definition example_horizontal_B_diagonal_A :: board where
  "example_horizontal_B_diagonal_A =
     fold (\<lambda>(r, c, p) b. setPiece b r c p)
       [(5, 0, PIECE_A), (4, 1, PIECE_A), (3, 2, PIECE_A), (2, 3, PIECE_A),
        (5, 3, PIECE_B), (5, 4, PIECE_B), (5, 5, PIECE_B), (5, 6, PIECE_B)] empty_board"

abbreviation wins_in :: "board \<Rightarrow> window list \<Rightarrow> piece \<Rightarrow> bool" where
  "wins_in b ws p \<equiv> \<exists>w \<in> set ws. window_cells b w = replicate 4 p"

section \<open>The window lists enumerate the lines\<close>

lemma mem_vertical_windows:
  "w \<in> set vertical_windows \<longleftrightarrow>
     (\<exists>r c. r + 3 < ROWS \<and> c < COLUMNS \<and> w = [(r, c), (r + 1, c), (r + 2, c), (r + 3, c)])"
  by (auto simp: vertical_windows_def ROWS_def COLUMNS_def image_iff)

lemma mem_horizontal_windows:
  "w \<in> set horizontal_windows \<longleftrightarrow>
     (\<exists>r c. r < ROWS \<and> c + 3 < COLUMNS \<and> w = [(r, c), (r, c + 1), (r, c + 2), (r, c + 3)])"
  by (auto simp: horizontal_windows_def ROWS_def COLUMNS_def image_iff)

lemma mem_diagonal_windows:
  "w \<in> set diagonal_windows \<longleftrightarrow>
     (\<exists>r c. r + 3 < ROWS \<and> c + 3 < COLUMNS \<and>
        (w = [(r, c), (r + 1, c + 1), (r + 2, c + 2), (r + 3, c + 3)] \<or>
         w = [(r + 3, c), (r + 2, c + 1), (r + 1, c + 2), (r, c + 3)]))"
  by (auto simp: diagonal_windows_def ROWS_def COLUMNS_def image_iff)

lemmas window_line_simps = window_cells_def replicate_four all_less_four

lemma vertical_windows_lines:
  "wins_in b vertical_windows p \<longleftrightarrow> vertical_line b p"
proof
  assume "wins_in b vertical_windows p"
  then show "vertical_line b p"
    unfolding Bex_def mem_vertical_windows vertical_line_def by (auto simp: window_line_simps)
next
  assume "vertical_line b p"
  then obtain r c where "r + 3 < ROWS" "c < COLUMNS" "\<forall>k < 4. getPiece b (r + k) c = p"
    by (auto simp: vertical_line_def)
  then show "wins_in b vertical_windows p"
    by (intro bexI [of _ "[(r, c), (r + 1, c), (r + 2, c), (r + 3, c)]"])
       (auto simp: mem_vertical_windows window_line_simps)
qed

lemma horizontal_windows_lines:
  "wins_in b horizontal_windows p \<longleftrightarrow> horizontal_line b p"
proof
  assume "wins_in b horizontal_windows p"
  then show "horizontal_line b p"
    unfolding Bex_def mem_horizontal_windows horizontal_line_def by (auto simp: window_line_simps)
next
  assume "horizontal_line b p"
  then obtain r c where "r < ROWS" "c + 3 < COLUMNS" "\<forall>k < 4. getPiece b r (c + k) = p"
    by (auto simp: horizontal_line_def)
  then show "wins_in b horizontal_windows p"
    by (intro bexI [of _ "[(r, c), (r, c + 1), (r, c + 2), (r, c + 3)]"])
       (auto simp: mem_horizontal_windows window_line_simps)
qed

lemma diagonal_windows_lines:
  "wins_in b diagonal_windows p \<longleftrightarrow> diagonal_line b p"
proof
  assume "wins_in b diagonal_windows p"
  then show "diagonal_line b p"
    unfolding Bex_def mem_diagonal_windows diagonal_line_def
    by (auto simp: window_line_simps add.commute)
next
  assume "diagonal_line b p"
  then obtain r c where rc: "r + 3 < ROWS" "c + 3 < COLUMNS" and
    "(\<forall>k < 4. getPiece b (r + k) (c + k) = p) \<or> (\<forall>k < 4. getPiece b (r + 3 - k) (c + k) = p)"
    by (auto simp: diagonal_line_def)
  then consider "\<forall>k < 4. getPiece b (r + k) (c + k) = p" | "\<forall>k < 4. getPiece b (r + 3 - k) (c + k) = p"
    by blast
  then show "wins_in b diagonal_windows p"
  proof cases
    case 1
    with rc show ?thesis
      by (intro bexI [of _ "[(r, c), (r + 1, c + 1), (r + 2, c + 2), (r + 3, c + 3)]"])
         (auto simp: mem_diagonal_windows window_line_simps)
  next
    case 2
    with rc show ?thesis
      by (intro bexI [of _ "[(r + 3, c), (r + 2, c + 1), (r + 1, c + 2), (r, c + 3)]"])
         (auto simp: mem_diagonal_windows window_line_simps)
  qed
qed

lemma all_windows_lines:
  "wins_in b all_windows p \<longleftrightarrow> has_line b p"
  by (simp add: all_windows_def has_line_def bex_Un vertical_windows_lines horizontal_windows_lines
                diagonal_windows_lines)

section \<open>The scan\<close>

lemma checkWin_scan_append:
  "checkWin_scan b (xs @ ys) = (case checkWin_scan b xs of None \<Rightarrow> checkWin_scan b ys | Some s \<Rightarrow> Some s)"
  by (induction xs) auto

lemma checkWin_scan_None:
  "checkWin_scan b ws = None \<longleftrightarrow> \<not> wins_in b ws PIECE_A \<and> \<not> wins_in b ws PIECE_B"
  by (induction ws) auto

lemma checkWin_scan_Some:
  "checkWin_scan b ws = Some s \<Longrightarrow>
     (s = WIN_STATE_A \<and> wins_in b ws PIECE_A) \<or> (s = WIN_STATE_B \<and> wins_in b ws PIECE_B)"
  by (induction ws) (auto split: if_splits)

lemma checkWin_scan_only:
  assumes "wins_in b ws p" "\<not> wins_in b ws q" "{p, q} = {PIECE_A, PIECE_B}"
  shows "checkWin_scan b ws = Some (pieceToWinState p)"
  using assms(1,2)
proof (induction ws)
  case Nil
  then show ?case by simp
next
  case (Cons w ws)
  from assms(3) have "p = PIECE_A \<and> q = PIECE_B \<or> p = PIECE_B \<and> q = PIECE_A"
    by (auto simp: doubleton_eq_iff)
  with Cons show ?case by auto
qed

lemma checkWin_cases:
  "checkWin b =
     (if has_line b PIECE_A \<or> has_line b PIECE_B then the (checkWin_scan b all_windows)
      else if top_row_open b then WIN_STATE_NOT_FINISHED else WIN_STATE_DRAW)"
proof -
  have "list_ex (\<lambda>i. getPiece b 0 i = PIECE_EMPTY) [0..<COLUMNS] \<longleftrightarrow> top_row_open b"
    by (auto simp: list_ex_iff top_row_open_def)
  then show ?thesis
    using checkWin_scan_None [of b all_windows]
    by (auto simp: checkWin_def all_windows_lines split: option.split)
qed

lemma checkWin_line_cases:
  assumes "has_line b PIECE_A \<or> has_line b PIECE_B"
  shows "(checkWin b = WIN_STATE_A \<and> has_line b PIECE_A) \<or> (checkWin b = WIN_STATE_B \<and> has_line b PIECE_B)"
proof -
  obtain s where "checkWin_scan b all_windows = Some s"
    using assms checkWin_scan_None [of b all_windows] all_windows_lines by fastforce
  with checkWin_scan_Some [OF this] assms show ?thesis
    by (auto simp: checkWin_cases all_windows_lines)
qed

lemma checkWin_not_finished_open:
  assumes "checkWin b = WIN_STATE_NOT_FINISHED"
  shows "\<exists>c < COLUMNS. isColumnOpen b c"
proof -
  have "checkWin_scan b all_windows = None"
    using assms checkWin_scan_Some [of b all_windows] by (cases "checkWin_scan b all_windows") (auto simp: checkWin_def)
  with assms have "list_ex (\<lambda>i. getPiece b 0 i = PIECE_EMPTY) [0..<COLUMNS]"
    by (auto simp: checkWin_def split: if_splits)
  then show ?thesis by (auto simp: list_ex_iff isColumnOpen_def)
qed

section \<open>Correctness of checkWin\<close>

text \<open>
  C1. \<open>checkWin\<close> reports that the game is not finished exactly when neither player
  has four in a row in any orientation and some cell of the top row is empty.
\<close>

theorem checkWin_not_finished_iff:
  "checkWin b = WIN_STATE_NOT_FINISHED \<longleftrightarrow>
     \<not> has_line b PIECE_A \<and> \<not> has_line b PIECE_B \<and> top_row_open b"
  using checkWin_line_cases [of b] by (auto simp: checkWin_cases)

text \<open>
  C11. \<open>checkWin\<close> reports a draw exactly when neither player has four in a row and
  the whole top row is occupied.
\<close>

theorem checkWin_draw_iff:
  "checkWin b = WIN_STATE_DRAW \<longleftrightarrow>
     \<not> has_line b PIECE_A \<and> \<not> has_line b PIECE_B \<and> \<not> top_row_open b"
  using checkWin_line_cases [of b] by (auto simp: checkWin_cases)

text \<open>
  C8. A win reported by \<open>checkWin\<close> is backed by a four-in-a-row of that player, and
  a four-in-a-row of only one player is always reported as that player's win.
\<close>

theorem checkWin_win_correct:
  "(checkWin b = WIN_STATE_A \<longrightarrow> has_line b PIECE_A) \<and>
   (checkWin b = WIN_STATE_B \<longrightarrow> has_line b PIECE_B) \<and>
   (has_line b PIECE_A \<and> \<not> has_line b PIECE_B \<longrightarrow> checkWin b = WIN_STATE_A) \<and>
   (has_line b PIECE_B \<and> \<not> has_line b PIECE_A \<longrightarrow> checkWin b = WIN_STATE_B)"
  using checkWin_line_cases [of b] by (auto simp: checkWin_cases)

lemma has_line_example_bottom_A: "has_line example_bottom_A PIECE_A"
proof -
  have "wins_in example_bottom_A all_windows PIECE_A"
    by (simp add: example_bottom_A_def) code_simp
  then show ?thesis by (simp add: all_windows_lines)
qed

theorem checkWin_win_correct_witness:
  "checkWin example_bottom_A = WIN_STATE_A \<and> has_line example_bottom_A PIECE_A"
proof -
  have "\<not> has_line example_bottom_A PIECE_B"
  proof -
    have "\<not> wins_in example_bottom_A all_windows PIECE_B"
      by (simp add: example_bottom_A_def) code_simp
    then show ?thesis by (simp add: all_windows_lines)
  qed
  with has_line_example_bottom_A checkWin_win_correct [of example_bottom_A] show ?thesis by blast
qed

text \<open>
  C9. Scan order, vertical first: when one player has a vertical four-in-a-row and
  the other has none, \<open>checkWin\<close> reports the first player's win, whatever
  horizontal or diagonal lines the other player has.
\<close>

theorem checkWin_vertical_first:
  assumes "vertical_line b p" "\<not> vertical_line b q" "{p, q} = {PIECE_A, PIECE_B}"
  shows "checkWin b = pieceToWinState p"
proof -
  have "checkWin_scan b vertical_windows = Some (pieceToWinState p)"
    using assms by (intro checkWin_scan_only) (simp_all add: vertical_windows_lines)
  then show ?thesis by (simp add: checkWin_def all_windows_def checkWin_scan_append)
qed

theorem checkWin_vertical_first_witness:
  "horizontal_line example_vertical_B_horizontal_A PIECE_A \<and>
   checkWin example_vertical_B_horizontal_A = WIN_STATE_B"
proof -
  have "wins_in example_vertical_B_horizontal_A vertical_windows PIECE_B"
    "\<not> wins_in example_vertical_B_horizontal_A vertical_windows PIECE_A"
    "wins_in example_vertical_B_horizontal_A horizontal_windows PIECE_A"
    by (simp_all add: example_vertical_B_horizontal_A_def) code_simp+
  then show ?thesis
    using checkWin_vertical_first [of example_vertical_B_horizontal_A PIECE_B PIECE_A]
    by (simp add: vertical_windows_lines horizontal_windows_lines insert_commute)
qed

text \<open>
  C10. Scan order, horizontal before diagonal: with no vertical four-in-a-row on the
  board, a horizontal four-in-a-row of only one player decides the result, whatever
  diagonal lines the other player has.
\<close>

theorem checkWin_horizontal_before_diagonal:
  assumes "\<not> vertical_line b PIECE_A" "\<not> vertical_line b PIECE_B"
    and "horizontal_line b p" "\<not> horizontal_line b q" "{p, q} = {PIECE_A, PIECE_B}"
  shows "checkWin b = pieceToWinState p"
proof -
  have "checkWin_scan b vertical_windows = None"
    using assms(1,2) by (simp add: checkWin_scan_None vertical_windows_lines)
  moreover have "checkWin_scan b horizontal_windows = Some (pieceToWinState p)"
    using assms(3-5) by (intro checkWin_scan_only) (simp_all add: horizontal_windows_lines)
  ultimately show ?thesis by (simp add: checkWin_def all_windows_def checkWin_scan_append)
qed

theorem checkWin_horizontal_before_diagonal_witness:
  "diagonal_line example_horizontal_B_diagonal_A PIECE_A \<and>
   checkWin example_horizontal_B_diagonal_A = WIN_STATE_B"
proof -
  have "\<not> wins_in example_horizontal_B_diagonal_A vertical_windows PIECE_A"
    "\<not> wins_in example_horizontal_B_diagonal_A vertical_windows PIECE_B"
    "wins_in example_horizontal_B_diagonal_A horizontal_windows PIECE_B"
    "\<not> wins_in example_horizontal_B_diagonal_A horizontal_windows PIECE_A"
    "wins_in example_horizontal_B_diagonal_A diagonal_windows PIECE_A"
    by (simp_all add: example_horizontal_B_diagonal_A_def) code_simp+
  then show ?thesis
    using checkWin_horizontal_before_diagonal [of example_horizontal_B_diagonal_A PIECE_B PIECE_A]
    by (simp add: vertical_windows_lines horizontal_windows_lines diagonal_windows_lines insert_commute)
qed

end
