(* ===== verification/Game_Tree.thy ===== *)
theory Game_Tree
  imports Prelude
begin

text \<open>
  The abstract specification of minimax: a game tree whose leaves carry static
  values and whose inner nodes list the positions reachable in one move, evaluated
  alternately by the maximiser and the minimiser.  The maximum of no values is
  \<open>INT_MIN\<close> and the minimum of none is \<open>INT_MAX\<close>, which are the initial
  \<open>bestValue\<close>s of \<open>AI::minimax\<close> in \<open>src/ai.h\<close>.  The lemmas bound the value of a
  tree by the bounds of its leaves when no inner node is empty.
\<close>

datatype 'a gtree = Lf 'a | Nd "'a gtree list"

fun maxs :: "int list \<Rightarrow> int" where
  "maxs [] = INT_MIN"
| "maxs (x # xs) = max x (maxs xs)"

fun mins :: "int list \<Rightarrow> int" where
  "mins [] = INT_MAX"
| "mins (x # xs) = min x (mins xs)"

text \<open>\<open>tree_value True\<close> is the maximiser's value of a tree, \<open>tree_value False\<close> the minimiser's.\<close>

fun tree_value :: "bool \<Rightarrow> int gtree \<Rightarrow> int" where
  "tree_value mx (Lf x) = x"
| "tree_value True (Nd ts) = maxs (map (tree_value False) ts)"
| "tree_value False (Nd ts) = mins (map (tree_value True) ts)"

text \<open>Every inner node has a child, and every leaf lies in \<open>[lo, hi]\<close>.\<close>

fun bounded_tree :: "int \<Rightarrow> int \<Rightarrow> int gtree \<Rightarrow> bool" where
  "bounded_tree lo hi (Lf x) \<longleftrightarrow> lo \<le> x \<and> x \<le> hi"
| "bounded_tree lo hi (Nd ts) \<longleftrightarrow> ts \<noteq> [] \<and> (\<forall>t \<in> set ts. bounded_tree lo hi t)"

lemma maxs_foldr: "maxs xs = foldr max xs INT_MIN"
  by (induction xs) simp_all

lemma mins_foldr: "mins xs = foldr min xs INT_MAX"
  by (induction xs) simp_all

lemma maxs_in_range:
  "xs \<noteq> [] \<Longrightarrow> \<forall>x \<in> set xs. lo \<le> x \<and> x \<le> hi \<Longrightarrow> INT_MIN \<le> hi \<Longrightarrow>
   lo \<le> maxs xs \<and> maxs xs \<le> hi"
proof (induction xs)
  case Nil
  then show ?case by simp
next
  case (Cons y ys)
  then show ?case by (cases "ys = []") auto
qed

lemma mins_in_range:
  "xs \<noteq> [] \<Longrightarrow> \<forall>x \<in> set xs. lo \<le> x \<and> x \<le> hi \<Longrightarrow> lo \<le> INT_MAX \<Longrightarrow>
   lo \<le> mins xs \<and> mins xs \<le> hi"
proof (induction xs)
  case Nil
  then show ?case by simp
next
  case (Cons y ys)
  then show ?case by (cases "ys = []") auto
qed

lemma tree_value_in_range:
  "bounded_tree lo hi t \<Longrightarrow> INT_MIN \<le> hi \<Longrightarrow> lo \<le> INT_MAX \<Longrightarrow>
   lo \<le> tree_value mx t \<and> tree_value mx t \<le> hi"
proof (induction mx t rule: tree_value.induct)
  case (1 mx x)
  then show ?case by simp
next
  case (2 ts)
  then show ?case using maxs_in_range [of "map (tree_value False) ts" lo hi] by auto
next
  case (3 ts)
  then show ?case using mins_in_range [of "map (tree_value True) ts" lo hi] by auto
qed

lemma mins_le_member:
  "x \<in> set xs \<Longrightarrow> mins xs \<le> x"
  by (induction xs) auto

lemma maxs_ge_member:
  "x \<in> set xs \<Longrightarrow> x \<le> maxs xs"
  by (induction xs) auto

lemma maxs_uminus:
  "xs \<noteq> [] \<Longrightarrow> \<forall>x \<in> set xs. \<bar>x\<bar> \<le> INT_MAX \<Longrightarrow> maxs (map uminus xs) = - mins xs"
proof (induction xs)
  case Nil
  then show ?case by simp
next
  case (Cons y ys)
  then show ?case by (cases "ys = []") (auto simp: INT_MIN_def INT_MAX_def)
qed

lemma mins_uminus:
  "xs \<noteq> [] \<Longrightarrow> \<forall>x \<in> set xs. \<bar>x\<bar> \<le> INT_MAX \<Longrightarrow> mins (map uminus xs) = - maxs xs"
proof (induction xs)
  case Nil
  then show ?case by simp
next
  case (Cons y ys)
  then show ?case by (cases "ys = []") (auto simp: INT_MIN_def INT_MAX_def)
qed

end
