(* ===== verification/AI.thy ===== *)
theory AI
  imports Win Game_Tree
begin

text \<open>
  The search engine of \<open>src/ai.h\<close>: class \<open>AI\<close> as a record of its two piece
  identifiers (the board it points to is passed explicitly and returned, since the
  search mutates it in place), \<open>startingDepth = 6\<close>, \<open>getBoardHeuristicValue\<close>
  (terminal scores, then the window scan of \<open>window_points\<close>), \<open>minimax\<close> with its
  two column loops folded into \<open>minimax_cols\<close> (the flag \<open>mx\<close> selects the
  maximising or the minimising loop), and \<open>computeMove\<close> with its loop
  \<open>computeMove_cols\<close>.  Each loop body drops a piece with \<open>addMove\<close>, recurses, and
  undoes the move with \<open>setPiece \<dots> PIECE_EMPTY\<close>; an error of \<open>addMove\<close> is
  propagated.  The reference semantics is the game tree \<open>game_tree\<close> built from
  copies of the board (\<open>play\<close>) and evaluated by \<open>tree_value\<close> of \<open>Game_Tree\<close>.
\<close>

record ai =
  computerPiece :: piece
  playerPiece :: piece

definition startingDepth :: nat where
  "startingDepth = 6"

section \<open>Heuristic\<close>

text \<open>
  One window of the scan: three of a player's pieces and an empty cell at one end of
  the window, in the code's cell order.
\<close>

definition window_points :: "ai \<Rightarrow> board \<Rightarrow> window \<Rightarrow> int" where
  "window_points ai b w =
     (let cs = window_cells b w; P = playerPiece ai; C = computerPiece ai; E = PIECE_EMPTY
      in (if cs = [P, P, P, E] then -3 else 0) + (if cs = [E, P, P, P] then -3 else 0) +
         (if cs = [C, C, C, E] then 3 else 0) + (if cs = [E, C, C, C] then 3 else 0))"

definition getBoardHeuristicValue :: "ai \<Rightarrow> board \<Rightarrow> nat \<Rightarrow> int" where
  "getBoardHeuristicValue ai b depth =
     (let winState = checkWin b
      in if winState = pieceToWinState (computerPiece ai) then 1000 - (int startingDepth - int depth)
         else if winState = pieceToWinState (playerPiece ai) then -1000 + (int startingDepth - int depth)
         else if winState = WIN_STATE_DRAW then 0
         else (\<Sum>w\<leftarrow>all_windows. window_points ai b w))"

section \<open>Search on the shared board\<close>

definition mover :: "ai \<Rightarrow> bool \<Rightarrow> piece" where
  "mover ai mx = (if mx then computerPiece ai else playerPiece ai)"

function minimax :: "ai \<Rightarrow> board \<Rightarrow> nat \<Rightarrow> bool \<Rightarrow> error + int \<times> board"
  and minimax_cols :: "ai \<Rightarrow> board \<Rightarrow> nat \<Rightarrow> bool \<Rightarrow> int \<Rightarrow> nat list \<Rightarrow> error + int \<times> board"
where
  "minimax ai b depth maximizingPlayer =
     (if depth = 0 \<or> checkWin b \<noteq> WIN_STATE_NOT_FINISHED
      then Inr (getBoardHeuristicValue ai b depth, b)
      else if maximizingPlayer then minimax_cols ai b depth True INT_MIN [0..<COLUMNS]
      else minimax_cols ai b depth False INT_MAX [0..<COLUMNS])"
| "minimax_cols ai b depth mx bestValue [] = Inr (bestValue, b)"
| "minimax_cols ai b depth mx bestValue (col # cols) =
     (if isColumnOpen b col then
        (case addMove b col (mover ai mx) of
           Inl e \<Rightarrow> Inl e
         | Inr (row, b1) \<Rightarrow>
             (case minimax ai b1 (depth - 1) (\<not> mx) of
                Inl e \<Rightarrow> Inl e
              | Inr (v, b2) \<Rightarrow>
                  minimax_cols ai (setPiece b2 row col PIECE_EMPTY) depth mx
                    (if mx then max bestValue v else min bestValue v) cols))
      else minimax_cols ai b depth mx bestValue cols)"
  by pat_completeness auto
termination
  by (relation "measures
        [case_sum (\<lambda>(ai, b, depth, mx). depth) (\<lambda>(ai, b, depth, mx, v, cols). depth - 1),
         case_sum (\<lambda>_. 0) (\<lambda>(ai, b, depth, mx, v, cols). Suc (length cols))]") auto

fun computeMove_cols :: "ai \<Rightarrow> board \<Rightarrow> int \<Rightarrow> nat \<Rightarrow> nat list \<Rightarrow> error + nat \<times> board" where
  "computeMove_cols ai b bestValue move [] = Inr (move, b)"
| "computeMove_cols ai b bestValue move (col # cols) =
     (if isColumnOpen b col then
        (case addMove b col (computerPiece ai) of
           Inl e \<Rightarrow> Inl e
         | Inr (row, b1) \<Rightarrow>
             (case minimax ai b1 startingDepth False of
                Inl e \<Rightarrow> Inl e
              | Inr (v, b2) \<Rightarrow>
                  (let (bestValue', move') = (if v > bestValue then (v, col) else (bestValue, move))
                   in computeMove_cols ai (setPiece b2 row col PIECE_EMPTY) bestValue' move' cols)))
      else computeMove_cols ai b bestValue move cols)"

definition computeMove :: "ai \<Rightarrow> board \<Rightarrow> error + nat \<times> board" where
  "computeMove ai b = computeMove_cols ai b INT_MIN 0 [0..<COLUMNS]"

section \<open>Reference semantics: the game tree on copies of the board\<close>

definition play :: "board \<Rightarrow> nat \<Rightarrow> piece \<Rightarrow> board" where
  "play b col p = (case addMove b col p of Inr (_, b') \<Rightarrow> b' | Inl _ \<Rightarrow> b)"

definition open_columns :: "board \<Rightarrow> nat list" where
  "open_columns b = filter (isColumnOpen b) [0..<COLUMNS]"

fun game_tree :: "ai \<Rightarrow> board \<Rightarrow> nat \<Rightarrow> bool \<Rightarrow> int gtree" where
  "game_tree ai b depth mx =
     (if depth = 0 \<or> checkWin b \<noteq> WIN_STATE_NOT_FINISHED
      then Lf (getBoardHeuristicValue ai b depth)
      else Nd (map (\<lambda>col. game_tree ai (play b col (mover ai mx)) (depth - 1) (\<not> mx)) (open_columns b)))"

definition minimax_value :: "ai \<Rightarrow> board \<Rightarrow> nat \<Rightarrow> bool \<Rightarrow> int" where
  "minimax_value ai b depth mx = tree_value mx (game_tree ai b depth mx)"

text \<open>The value \<open>computeMove\<close> gives a column: the opponent to move after the drop.\<close>

definition column_value :: "ai \<Rightarrow> board \<Rightarrow> nat \<Rightarrow> int" where
  "column_value ai b col = minimax_value ai (play b col (computerPiece ai)) startingDepth False"

text \<open>A configuration as \<open>main.cpp\<close> builds it: two distinct, non-empty pieces.\<close>

definition valid_ai :: "ai \<Rightarrow> bool" where
  "valid_ai ai \<longleftrightarrow>
     computerPiece ai \<noteq> PIECE_EMPTY \<and> playerPiece ai \<noteq> PIECE_EMPTY \<and> computerPiece ai \<noteq> playerPiece ai"

text \<open>
  The scoring of a window as the specification words it: three pieces of one player
  and one empty cell, in any position.  The windows on which the code's scoring can
  differ are those whose empty cell is inside (\<open>middle_gaps\<close>).
\<close>

definition spec_window_points :: "ai \<Rightarrow> board \<Rightarrow> window \<Rightarrow> int" where
  "spec_window_points ai b w =
     (let cs = window_cells b w
      in (if count_list cs (computerPiece ai) = 3 \<and> count_list cs PIECE_EMPTY = 1 then 3 else 0) +
         (if count_list cs (playerPiece ai) = 3 \<and> count_list cs PIECE_EMPTY = 1 then -3 else 0))"

definition middle_gaps :: "ai \<Rightarrow> piece list list" where
  "middle_gaps ai =
     (let C = computerPiece ai; P = playerPiece ai; E = PIECE_EMPTY
      in [[C, E, C, C], [C, C, E, C], [P, E, P, P], [P, P, E, P]])"

text \<open>The engine with the roles of the two pieces exchanged.\<close>

definition swap_ai :: "ai \<Rightarrow> ai" where
  "swap_ai ai = \<lparr>computerPiece = playerPiece ai, playerPiece = computerPiece ai\<rparr>"

text \<open>Example positions used by the witnesses.\<close>

definition example_three_B :: board where
  "example_three_B =
     fold (\<lambda>(r, c, p) b. setPiece b r c p)
       [(5, 0, PIECE_B), (5, 1, PIECE_B), (5, 2, PIECE_B), (4, 0, PIECE_A), (4, 1, PIECE_A),
        (4, 2, PIECE_A)] empty_board"

definition example_gap_B :: board where
  "example_gap_B =
     fold (\<lambda>(r, c, p) b. setPiece b r c p)
       [(5, 0, PIECE_B), (5, 1, PIECE_B), (5, 3, PIECE_B), (5, 4, PIECE_A)] empty_board"

definition example_full_board :: board where
  "example_full_board = \<lparr>pieces = replicate ROWS (replicate COLUMNS PIECE_A)\<rparr>"

declare minimax.simps [simp del] game_tree.simps [simp del]

section \<open>The in-place search computes the game-tree value\<close>

lemma play_open:
  assumes "isColumnOpen b col"
  obtains row where "row < ROWS" "getPiece b row col = PIECE_EMPTY"
    "addMove b col p = Inr (row, play b col p)" "play b col p = setPiece b row col p"
  using addMove_open [OF assms, of p] by (auto simp: play_def)

lemma wf_play:
  assumes "wf_board b"
  shows "wf_board (play b col p)"
proof (cases "addMove b col p")
  case (Inl e)
  with assms show ?thesis by (simp add: play_def)
next
  case (Inr rb)
  then obtain row b' where add: "addMove b col p = Inr (row, b')" by (cases rb) auto
  with addMove_Inr_setPiece(1) [OF add] assms show ?thesis by (simp add: play_def wf_setPiece)
qed

lemma minimax_game_tree:
  "tree_value mx (Nd (map (\<lambda>col. game_tree ai (f col) d (\<not> mx)) cs)) =
   foldl (if mx then max else min) (if mx then INT_MIN else INT_MAX)
     (map (\<lambda>col. minimax_value ai (f col) d (\<not> mx)) cs)"
  by (cases mx) (simp_all add: maxs_foldr mins_foldr foldl_max_foldr foldl_min_foldr
                               minimax_value_def comp_def)

lemma minimax_refinement:
  "wf_board b \<Longrightarrow> minimax ai b depth mx = Inr (minimax_value ai b depth mx, b)"
  "wf_board b \<Longrightarrow>
     minimax_cols ai b depth mx best cols =
       Inr (foldl (if mx then max else min) best
              (map (\<lambda>col. minimax_value ai (play b col (mover ai mx)) (depth - 1) (\<not> mx))
                   (filter (isColumnOpen b) cols)), b)"
proof (induction ai b depth mx and ai b depth mx best cols rule: minimax_minimax_cols.induct)
  case (1 ai b depth mx)
  show ?case
  proof (cases "depth = 0 \<or> checkWin b \<noteq> WIN_STATE_NOT_FINISHED")
    case True
    then show ?thesis
      by (simp add: minimax.simps [of ai b depth mx] minimax_value_def game_tree.simps [of ai b depth mx])
  next
    case False
    then have "minimax_value ai b depth mx =
      tree_value mx (Nd (map (\<lambda>col. game_tree ai (play b col (mover ai mx)) (depth - 1) (\<not> mx)) (open_columns b)))"
      by (simp add: minimax_value_def game_tree.simps [of ai b depth mx])
    also have "\<dots> = foldl (if mx then max else min) (if mx then INT_MIN else INT_MAX)
      (map (\<lambda>col. minimax_value ai (play b col (mover ai mx)) (depth - 1) (\<not> mx)) (open_columns b))"
      by (rule minimax_game_tree)
    finally have V: "minimax_value ai b depth mx = \<dots>" .
    from False "1.IH" "1.prems" V show ?thesis
      by (cases mx) (simp_all add: minimax.simps [of ai b depth] minimax_game_tree open_columns_def)
  qed
next
  case (2 ai b depth mx bestValue)
  then show ?case by simp
next
  case (3 ai b depth mx bestValue col cols)
  show ?case
  proof (cases "isColumnOpen b col")
    case False
    with "3.IH"(3) "3.prems" show ?thesis by simp
  next
    case True
    then obtain row where row: "row < ROWS" "getPiece b row col = PIECE_EMPTY"
      and add: "addMove b col (mover ai mx) = Inr (row, play b col (mover ai mx))"
      and pl: "play b col (mover ai mx) = setPiece b row col (mover ai mx)"
      by (rule play_open)
    let ?b1 = "play b col (mover ai mx)"
    let ?v = "minimax_value ai ?b1 (depth - 1) (\<not> mx)"
    have wf1: "wf_board ?b1" using "3.prems" by (rule wf_play)
    have rec: "minimax ai ?b1 (depth - 1) (\<not> mx) = Inr (?v, ?b1)"
      using "3.IH"(1) [OF True add refl wf1] .
    have undo: "setPiece ?b1 row col PIECE_EMPTY = b"
      using "3.prems" row by (simp add: pl setPiece_restore)
    have "minimax_cols ai (setPiece ?b1 row col PIECE_EMPTY) depth mx
            (if mx then max bestValue ?v else min bestValue ?v) cols =
          Inr (foldl (if mx then max else min) (if mx then max bestValue ?v else min bestValue ?v)
                 (map (\<lambda>col. minimax_value ai (play b col (mover ai mx)) (depth - 1) (\<not> mx))
                      (filter (isColumnOpen b) cols)), b)"
      using "3.IH"(2) [OF True add refl rec refl] "3.prems" undo by simp
    with True add rec show ?thesis by (cases mx) simp_all
  qed
qed

section \<open>Bounds on the values\<close>

lemma window_points_bound: "\<bar>window_points ai b w\<bar> \<le> 12"
  by (simp add: window_points_def Let_def)

lemma window_points_bound_valid: "valid_ai ai \<Longrightarrow> \<bar>window_points ai b w\<bar> \<le> 3"
  by (auto simp: window_points_def valid_ai_def Let_def)

lemma window_sum_bound: "\<bar>\<Sum>w\<leftarrow>all_windows. window_points ai b w\<bar> \<le> 828"
  using abs_sum_list_le [of all_windows "window_points ai b" 12] window_points_bound
  by (simp add: length_all_windows)

lemma window_sum_bound_valid: "valid_ai ai \<Longrightarrow> \<bar>\<Sum>w\<leftarrow>all_windows. window_points ai b w\<bar> \<le> 207"
  using abs_sum_list_le [of all_windows "window_points ai b" 3] window_points_bound_valid
  by (simp add: length_all_windows)

lemma heuristic_range:
  "depth \<le> startingDepth \<Longrightarrow>
   -1000 \<le> getBoardHeuristicValue ai b depth \<and> getBoardHeuristicValue ai b depth \<le> 994 + int depth"
  using window_sum_bound [of ai b]
  by (auto simp: getBoardHeuristicValue_def startingDepth_def Let_def abs_le_iff)

lemma open_columns_nonempty:
  assumes "checkWin b = WIN_STATE_NOT_FINISHED"
  shows "open_columns b \<noteq> []"
proof -
  obtain c where "c < COLUMNS" "isColumnOpen b c" using checkWin_not_finished_open [OF assms] by blast
  then show ?thesis by (auto simp: open_columns_def filter_empty_conv)
qed

lemma minimax_value_leaf:
  "depth = 0 \<or> checkWin b \<noteq> WIN_STATE_NOT_FINISHED \<Longrightarrow>
   minimax_value ai b depth mx = getBoardHeuristicValue ai b depth"
  by (simp add: minimax_value_def game_tree.simps [of ai b depth mx])

lemma minimax_value_node:
  "\<not> (depth = 0 \<or> checkWin b \<noteq> WIN_STATE_NOT_FINISHED) \<Longrightarrow>
   minimax_value ai b depth mx =
     (if mx then maxs else mins)
       (map (\<lambda>col. minimax_value ai (play b col (mover ai mx)) (depth - 1) (\<not> mx)) (open_columns b))"
proof -
  assume "\<not> (depth = 0 \<or> checkWin b \<noteq> WIN_STATE_NOT_FINISHED)"
  then have "game_tree ai b depth mx =
    Nd (map (\<lambda>col. game_tree ai (play b col (mover ai mx)) (depth - 1) (\<not> mx)) (open_columns b))"
    by (simp add: game_tree.simps [of ai b depth mx])
  then show ?thesis by (cases mx) (simp_all add: minimax_value_def comp_def)
qed

lemma minimax_value_range:
  "depth \<le> startingDepth \<Longrightarrow>
   -1000 \<le> minimax_value ai b depth mx \<and> minimax_value ai b depth mx \<le> 994 + int depth"
proof (induction ai b depth mx rule: game_tree.induct)
  case (1 ai b depth mx)
  show ?case
  proof (cases "depth = 0 \<or> checkWin b \<noteq> WIN_STATE_NOT_FINISHED")
    case True
    with "1.prems" show ?thesis by (simp add: minimax_value_leaf heuristic_range)
  next
    case False
    let ?vs = "map (\<lambda>col. minimax_value ai (play b col (mover ai mx)) (depth - 1) (\<not> mx)) (open_columns b)"
    have ne: "?vs \<noteq> []" using False open_columns_nonempty by simp
    have "\<forall>v \<in> set ?vs. -1000 \<le> v \<and> v \<le> 994 + int (depth - 1)"
      using "1.IH" [OF False] "1.prems" by auto
    then have vs: "\<forall>v \<in> set ?vs. -1000 \<le> v \<and> v \<le> 994 + int depth" by force
    have "INT_MIN \<le> 994 + int depth" "-1000 \<le> INT_MAX" by (simp_all add: INT_MIN_def INT_MAX_def)
    then have "-1000 \<le> (if mx then maxs else mins) ?vs \<and> (if mx then maxs else mins) ?vs \<le> 994 + int depth"
      using maxs_in_range [OF ne vs] mins_in_range [OF ne vs] by (cases mx) simp_all
    with minimax_value_node [OF False, of ai mx] show ?thesis by simp
  qed
qed

section \<open>computeMove selects the lowest column of maximal value\<close>

lemma computeMove_cols_refinement:
  "wf_board b \<Longrightarrow>
   computeMove_cols ai b bestValue move cols =
     Inr (snd (foldl (\<lambda>(bv, mv) c. if bv < column_value ai b c then (column_value ai b c, c) else (bv, mv))
                 (bestValue, move) (filter (isColumnOpen b) cols)), b)"
proof (induction cols arbitrary: bestValue move)
  case Nil
  then show ?case by simp
next
  case (Cons col cols)
  show ?case
  proof (cases "isColumnOpen b col")
    case False
    with Cons show ?thesis by simp
  next
    case True
    then obtain row where row: "row < ROWS" "getPiece b row col = PIECE_EMPTY"
      and add: "addMove b col (computerPiece ai) = Inr (row, play b col (computerPiece ai))"
      and pl: "play b col (computerPiece ai) = setPiece b row col (computerPiece ai)"
      by (rule play_open)
    have rec: "minimax ai (play b col (computerPiece ai)) startingDepth False =
               Inr (column_value ai b col, play b col (computerPiece ai))"
      using minimax_refinement(1) [OF wf_play [OF Cons.prems]] by (simp add: column_value_def)
    have undo: "setPiece (play b col (computerPiece ai)) row col PIECE_EMPTY = b"
      using Cons.prems row by (simp add: pl setPiece_restore)
    show ?thesis
      using True add rec undo Cons.IH [OF Cons.prems]
      by (cases "bestValue < column_value ai b col") simp_all
  qed
qed

lemma column_value_range:
  "-1000 \<le> column_value ai b c \<and> column_value ai b c \<le> 1000"
  using minimax_value_range [of startingDepth ai "play b c (computerPiece ai)" False]
  by (simp add: column_value_def startingDepth_def)

lemma sorted_open_columns: "sorted_wrt (<) (open_columns b)"
  by (simp add: open_columns_def sorted_wrt_filter)

lemma computeMove_first_max:
  assumes "wf_board b"
  obtains bv c where "computeMove ai b = Inr (c, b)"
    "foldl (\<lambda>(bv, mv) c. if bv < column_value ai b c then (column_value ai b c, c) else (bv, mv))
       (INT_MIN, 0) (open_columns b) = (bv, c)"
proof -
  let ?r = "foldl (\<lambda>(bv, mv) c. if bv < column_value ai b c then (column_value ai b c, c) else (bv, mv))
              (INT_MIN, 0) (open_columns b)"
  have "computeMove ai b = Inr (snd ?r, b)"
    using computeMove_cols_refinement [OF assms, of ai INT_MIN 0 "[0..<COLUMNS]"]
    unfolding computeMove_def open_columns_def .
  moreover have "?r = (fst ?r, snd ?r)" by simp
  ultimately show ?thesis using that by blast
qed

lemma computeMove_open_column:
  assumes "wf_board b" "open_columns b \<noteq> []"
  obtains c where "computeMove ai b = Inr (c, b)" "c < COLUMNS" "isColumnOpen b c"
proof -
  obtain bv c where cm: "computeMove ai b = Inr (c, b)"
    and fl: "foldl (\<lambda>(bv, mv) c. if bv < column_value ai b c then (column_value ai b c, c) else (bv, mv))
               (INT_MIN, 0) (open_columns b) = (bv, c)"
    using computeMove_first_max [OF assms(1)] by blast
  obtain c0 where c0: "c0 \<in> set (open_columns b)" using assms(2) by (cases "open_columns b") auto
  have "INT_MIN < column_value ai b c0" using column_value_range [of ai b c0] by (simp add: INT_MIN_def)
  with foldl_first_max [OF sorted_open_columns fl] c0 have "c \<in> set (open_columns b)" by force
  with cm that show ?thesis by (simp add: open_columns_def)
qed

lemma heuristic_not_win:
  "checkWin b \<noteq> pieceToWinState (computerPiece ai) \<Longrightarrow> getBoardHeuristicValue ai b depth \<le> 828"
  using window_sum_bound [of ai b]
  by (auto simp: getBoardHeuristicValue_def Let_def abs_le_iff startingDepth_def)

lemma valid_ai_win_state:
  "valid_ai ai \<Longrightarrow> pieceToWinState (computerPiece ai) \<noteq> WIN_STATE_NOT_FINISHED \<and>
     pieceToWinState (computerPiece ai) \<noteq> WIN_STATE_DRAW \<and>
     pieceToWinState (playerPiece ai) \<noteq> pieceToWinState (computerPiece ai)"
  by (cases "computerPiece ai"; cases "playerPiece ai") (simp_all add: valid_ai_def)

lemma window_cells_four:
  assumes "w \<in> set all_windows"
  obtains x1 x2 x3 x4 where "window_cells b w = [x1, x2, x3, x4]"
proof -
  have "length (window_cells b w) = 4"
    using all_windows_in_bounds [OF assms] by (simp add: window_cells_def)
  then show ?thesis using that by (auto simp: numeral_eq_Suc length_Suc_conv)
qed

lemma computeMove_selects:
  assumes "wf_board b" "open_columns b \<noteq> []"
  shows "\<exists>c. computeMove ai b = Inr (c, b) \<and> c \<in> set (open_columns b) \<and>
             (\<forall>c' \<in> set (open_columns b). column_value ai b c' \<le> column_value ai b c) \<and>
             (\<forall>c' \<in> set (open_columns b). c' < c \<longrightarrow> column_value ai b c' < column_value ai b c)"
proof -
  obtain bv c where cm: "computeMove ai b = Inr (c, b)"
    and fl: "foldl (\<lambda>(bv, mv) c. if bv < column_value ai b c then (column_value ai b c, c) else (bv, mv))
               (INT_MIN, 0) (open_columns b) = (bv, c)"
    using computeMove_first_max [OF assms(1)] by blast
  note F = foldl_first_max [OF sorted_open_columns fl]
  obtain c0 where c0: "c0 \<in> set (open_columns b)" using assms(2) by (cases "open_columns b") auto
  have "INT_MIN < column_value ai b c0" using column_value_range [of ai b c0] by (simp add: INT_MIN_def)
  with F c0 have "c \<in> set (open_columns b) \<and> column_value ai b c = bv \<and>
      (\<forall>c' \<in> set (open_columns b). c' < c \<longrightarrow> column_value ai b c' < bv)" by force
  with F cm show ?thesis by auto
qed

lemma column_value_immediate_win:
  assumes "valid_ai ai" "checkWin (play b c (computerPiece ai)) = pieceToWinState (computerPiece ai)"
  shows "column_value ai b c = 1000"
  using assms valid_ai_win_state [OF assms(1)]
  by (simp add: column_value_def minimax_value_leaf getBoardHeuristicValue_def startingDepth_def)

lemma heuristic_unfinished_bound:
  assumes "valid_ai ai" "checkWin b = WIN_STATE_NOT_FINISHED"
  shows "\<bar>getBoardHeuristicValue ai b depth\<bar> \<le> 207"
proof -
  have "pieceToWinState (playerPiece ai) \<noteq> WIN_STATE_NOT_FINISHED"
    using assms(1) by (cases "playerPiece ai") (simp_all add: valid_ai_def)
  with assms valid_ai_win_state [OF assms(1)] window_sum_bound_valid [OF assms(1), of b]
  show ?thesis by (simp add: getBoardHeuristicValue_def eq_commute [of WIN_STATE_NOT_FINISHED])
qed

section \<open>Negamax symmetry\<close>

lemma window_points_swap: "window_points (swap_ai ai) b w = - window_points ai b w"
  by (simp add: window_points_def swap_ai_def Let_def)

lemma getBoardHeuristicValue_swap:
  assumes "valid_ai ai"
  shows "getBoardHeuristicValue (swap_ai ai) b depth = - getBoardHeuristicValue ai b depth"
proof -
  have "(\<Sum>w\<leftarrow>all_windows. window_points (swap_ai ai) b w) = - (\<Sum>w\<leftarrow>all_windows. window_points ai b w)"
    by (simp add: window_points_swap uminus_sum_list_map comp_def)
  moreover have "pieceToWinState (playerPiece ai) \<noteq> pieceToWinState (computerPiece ai)"
    "pieceToWinState (computerPiece ai) \<noteq> WIN_STATE_DRAW"
    "pieceToWinState (playerPiece ai) \<noteq> WIN_STATE_DRAW"
    using assms by (cases "computerPiece ai"; cases "playerPiece ai"; simp add: valid_ai_def)+
  ultimately show ?thesis
    by (auto simp: getBoardHeuristicValue_def swap_ai_def Let_def)
qed

lemma mover_swap: "mover (swap_ai ai) (\<not> mx) = mover ai mx"
  by (simp add: mover_def swap_ai_def)

lemma minimax_value_swap:
  "valid_ai ai \<Longrightarrow> depth \<le> startingDepth \<Longrightarrow>
   minimax_value (swap_ai ai) b depth (\<not> mx) = - minimax_value ai b depth mx"
proof (induction ai b depth mx rule: game_tree.induct)
  case (1 ai b depth mx)
  show ?case
  proof (cases "depth = 0 \<or> checkWin b \<noteq> WIN_STATE_NOT_FINISHED")
    case True
    then show ?thesis by (simp add: minimax_value_leaf getBoardHeuristicValue_swap "1.prems")
  next
    case False
    let ?vs = "map (\<lambda>col. minimax_value ai (play b col (mover ai mx)) (depth - 1) (\<not> mx)) (open_columns b)"
    have ne: "?vs \<noteq> []" using False open_columns_nonempty by simp
    have d: "depth - 1 \<le> startingDepth" using "1.prems"(2) by simp
    have "\<bar>minimax_value ai' b' (depth - 1) mx'\<bar> \<le> INT_MAX" for ai' b' mx'
      using minimax_value_range [OF d, of ai' b' mx'] d by (simp add: INT_MAX_def startingDepth_def abs_le_iff)
    then have bnd: "\<forall>v \<in> set ?vs. \<bar>v\<bar> \<le> INT_MAX" by auto
    have eq: "map (\<lambda>col. minimax_value (swap_ai ai) (play b col (mover (swap_ai ai) (\<not> mx))) (depth - 1) (\<not> \<not> mx))
            (open_columns b) = map uminus ?vs"
      using "1.IH" [OF False _ "1.prems"(1)] "1.prems"(2) by (simp add: mover_swap)
    have sw: "minimax_value (swap_ai ai) b depth (\<not> mx) = (if \<not> mx then maxs else mins) (map uminus ?vs)"
      by (simp only: minimax_value_node [OF False, of "swap_ai ai" "\<not> mx"] eq)
    have orig: "minimax_value ai b depth mx = (if mx then maxs else mins) ?vs"
      by (rule minimax_value_node [OF False])
    show ?thesis
      using maxs_uminus [OF ne bnd] mins_uminus [OF ne bnd] unfolding sw orig by (cases mx) simp_all
  qed
qed

section \<open>Properties of the search\<close>

text \<open>
  C2. Undo discipline and correctness of the in-place search: on a 6 x 7 grid,
  \<open>minimax\<close> never fails, returns the minimax value of the game tree built on
  copies of the board, and leaves the shared board exactly as it found it.
\<close>

theorem minimax_in_place_correct:
  "wf_board b \<Longrightarrow> minimax ai b depth mx = Inr (minimax_value ai b depth mx, b)"
  by (rule minimax_refinement(1))

theorem minimax_in_place_correct_witness:
  "minimax \<lparr>computerPiece = PIECE_B, playerPiece = PIECE_A\<rparr> example_three_B 1 True =
   Inr (minimax_value \<lparr>computerPiece = PIECE_B, playerPiece = PIECE_A\<rparr> example_three_B 1 True, example_three_B)"
proof -
  have "wf_board example_three_B" by (simp add: example_three_B_def) code_simp
  then show ?thesis by (rule minimax_in_place_correct)
qed

text \<open>
  C3. Tie-break of \<open>computeMove\<close>: when some column is open, it returns an open
  column whose value is maximal among the open columns and strictly greater than the
  value of every open column to its left, and it restores the board.
\<close>

theorem computeMove_best:
  assumes "wf_board b" "open_columns b \<noteq> []"
  shows "\<exists>c. computeMove ai b = Inr (c, b) \<and> c \<in> set (open_columns b) \<and>
             (\<forall>c' \<in> set (open_columns b). column_value ai b c' \<le> column_value ai b c) \<and>
             (\<forall>c' \<in> set (open_columns b). c' < c \<longrightarrow> column_value ai b c' < column_value ai b c)"
  using computeMove_selects [OF assms] .

theorem computeMove_best_witness:
  "\<exists>c. computeMove \<lparr>computerPiece = PIECE_B, playerPiece = PIECE_A\<rparr> example_three_B = Inr (c, example_three_B) \<and>
       c \<in> set (open_columns example_three_B)"
proof -
  have "wf_board example_three_B" "open_columns example_three_B \<noteq> []"
    by (simp_all add: example_three_B_def) code_simp+
  then show ?thesis using computeMove_best by blast
qed

text \<open>
  C5. An immediate win is always taken: if dropping the engine's piece into open
  column \<open>c\<close> wins at once and no open column to its left does, \<open>computeMove\<close>
  returns \<open>c\<close> (for three of the engine's pieces at row 5, columns 0 to 2, it plays
  column 3).
\<close>

theorem computeMove_immediate_win:
  assumes "wf_board b" "valid_ai ai" "c \<in> set (open_columns b)"
    and "checkWin (play b c (computerPiece ai)) = pieceToWinState (computerPiece ai)"
    and "\<forall>c' \<in> set (open_columns b). c' < c \<longrightarrow>
           checkWin (play b c' (computerPiece ai)) \<noteq> pieceToWinState (computerPiece ai)"
  shows "computeMove ai b = Inr (c, b)"
proof -
  have win: "column_value ai b c = 1000" using assms(2,4) by (rule column_value_immediate_win)
  have less: "column_value ai b c' < 1000" if "c' \<in> set (open_columns b)" "c' < c" for c'
  proof -
    let ?b' = "play b c' (computerPiece ai)"
    have nw: "checkWin ?b' \<noteq> pieceToWinState (computerPiece ai)" using assms(5) that by blast
    show ?thesis
    proof (cases "checkWin ?b' = WIN_STATE_NOT_FINISHED")
      case False
      then show ?thesis using heuristic_not_win [OF nw, of startingDepth]
        by (simp add: column_value_def minimax_value_leaf)
    next
      case True
      let ?vs = "map (\<lambda>col. minimax_value ai (play ?b' col (mover ai False)) (startingDepth - 1) True) (open_columns ?b')"
      obtain col where "col \<in> set (open_columns ?b')" using open_columns_nonempty [OF True] by (cases "open_columns ?b'") auto
      then have "mins ?vs \<le> minimax_value ai (play ?b' col (mover ai False)) (startingDepth - 1) True"
        by (intro mins_le_member) simp
      also have "\<dots> \<le> 999" using minimax_value_range [of "startingDepth - 1"] by (simp add: startingDepth_def)
      finally show ?thesis using True
        by (simp add: column_value_def minimax_value_node startingDepth_def)
    qed
  qed
  obtain c0 where cm: "computeMove ai b = Inr (c0, b)" and c0: "c0 \<in> set (open_columns b)"
    and maxv: "\<forall>c' \<in> set (open_columns b). column_value ai b c' \<le> column_value ai b c0"
    and first: "\<forall>c' \<in> set (open_columns b). c' < c0 \<longrightarrow> column_value ai b c' < column_value ai b c0"
    using computeMove_selects [OF assms(1)] assms(3) by (metis empty_iff list.set(1))
  have "column_value ai b c0 = 1000" using maxv assms(3) win column_value_range [of ai b c0] by force
  then have "c0 = c" using less c0 first assms(3) win by (metis less_irrefl linorder_neqE_nat)
  with cm show ?thesis by simp
qed

theorem computeMove_immediate_win_witness:
  "computeMove \<lparr>computerPiece = PIECE_B, playerPiece = PIECE_A\<rparr> example_three_B = Inr (3, example_three_B)"
proof -
  let ?ai = "\<lparr>computerPiece = PIECE_B, playerPiece = PIECE_A\<rparr>"
  have "wf_board example_three_B" "3 \<in> set (open_columns example_three_B)"
    "checkWin (play example_three_B 3 PIECE_B) = WIN_STATE_B"
    "\<forall>c' \<in> set (open_columns example_three_B). c' < 3 \<longrightarrow> checkWin (play example_three_B c' PIECE_B) \<noteq> WIN_STATE_B"
    unfolding example_three_B_def by code_simp+
  moreover have "valid_ai ?ai" by (simp add: valid_ai_def)
  ultimately show ?thesis using computeMove_immediate_win [of example_three_B ?ai 3] by simp
qed

text \<open>
  C13. Positional heuristic bound: for a configuration with two distinct non-empty
  pieces, the static score of a position that is not finished is the sum of 69
  window scores of at most 3 in magnitude, so it lies in \<open>[-207, 207]\<close>.
\<close>

theorem heuristic_positional_bound:
  assumes "valid_ai ai" "checkWin b = WIN_STATE_NOT_FINISHED"
  shows "\<bar>getBoardHeuristicValue ai b depth\<bar> \<le> 207"
  using assms by (rule heuristic_unfinished_bound)

theorem heuristic_positional_bound_witness:
  "checkWin example_three_B = WIN_STATE_NOT_FINISHED \<and>
   \<bar>getBoardHeuristicValue \<lparr>computerPiece = PIECE_B, playerPiece = PIECE_A\<rparr> example_three_B 0\<bar> \<le> 207"
proof -
  have "checkWin example_three_B = WIN_STATE_NOT_FINISHED" unfolding example_three_B_def by code_simp
  moreover have "valid_ai \<lparr>computerPiece = PIECE_B, playerPiece = PIECE_A\<rparr>" by (simp add: valid_ai_def)
  ultimately show ?thesis using heuristic_positional_bound by blast
qed

text \<open>
  C12. Forced outcomes dominate positional play: within the search horizon a win of
  the engine scores at least 994 and a loss at most -994, strictly beyond any score
  of a position that is not finished.
\<close>

theorem forced_outcome_dominance:
  assumes "valid_ai ai" "depth \<le> startingDepth" "checkWin b' = WIN_STATE_NOT_FINISHED"
  shows "(checkWin b = pieceToWinState (computerPiece ai) \<longrightarrow>
            994 \<le> getBoardHeuristicValue ai b depth \<and>
            \<bar>getBoardHeuristicValue ai b' depth'\<bar> < getBoardHeuristicValue ai b depth) \<and>
         (checkWin b = pieceToWinState (playerPiece ai) \<longrightarrow>
            getBoardHeuristicValue ai b depth \<le> -994 \<and>
            getBoardHeuristicValue ai b depth < - \<bar>getBoardHeuristicValue ai b' depth'\<bar>)"
proof -
  have pos: "\<bar>getBoardHeuristicValue ai b' depth'\<bar> \<le> 207"
    using assms(1,3) by (rule heuristic_unfinished_bound)
  have "pieceToWinState (playerPiece ai) \<noteq> pieceToWinState (computerPiece ai)"
    using valid_ai_win_state [OF assms(1)] by simp
  with pos assms(2) show ?thesis
    by (auto simp: getBoardHeuristicValue_def startingDepth_def)
qed

theorem forced_outcome_dominance_witness:
  "checkWin example_bottom_A = WIN_STATE_A \<and>
   getBoardHeuristicValue \<lparr>computerPiece = PIECE_B, playerPiece = PIECE_A\<rparr> example_bottom_A 3 \<le> -994 \<and>
   getBoardHeuristicValue \<lparr>computerPiece = PIECE_B, playerPiece = PIECE_A\<rparr> example_bottom_A 3 <
     - \<bar>getBoardHeuristicValue \<lparr>computerPiece = PIECE_B, playerPiece = PIECE_A\<rparr> example_three_B 0\<bar>"
proof -
  have "checkWin example_bottom_A = WIN_STATE_A" unfolding example_bottom_A_def by code_simp
  moreover have "checkWin example_three_B = WIN_STATE_NOT_FINISHED" unfolding example_three_B_def by code_simp
  moreover have "valid_ai \<lparr>computerPiece = PIECE_B, playerPiece = PIECE_A\<rparr>" by (simp add: valid_ai_def)
  ultimately show ?thesis
    using forced_outcome_dominance [of "\<lparr>computerPiece = PIECE_B, playerPiece = PIECE_A\<rparr>" 3
        example_three_B example_bottom_A 0]
    by (simp add: startingDepth_def)
qed

text \<open>
  C14. Range of the search values: within the search horizon \<open>minimax\<close> returns a
  value in \<open>[-1000, 1000]\<close>, so the sentinels \<open>INT_MIN\<close> and \<open>INT_MAX\<close> never
  escape a loop and no 32-bit \<open>int\<close> arithmetic of the search overflows.
\<close>

theorem minimax_value_bounds:
  assumes "wf_board b" "depth \<le> startingDepth"
  shows "\<exists>v. minimax ai b depth mx = Inr (v, b) \<and> -1000 \<le> v \<and> v \<le> 1000 \<and> INT_MIN < v \<and> v < INT_MAX"
proof -
  have "-1000 \<le> minimax_value ai b depth mx \<and> minimax_value ai b depth mx \<le> 994 + int depth"
    using assms(2) by (rule minimax_value_range)
  with assms show ?thesis
    by (simp add: minimax_refinement(1) INT_MIN_def INT_MAX_def startingDepth_def)
qed

theorem minimax_value_bounds_witness:
  "\<exists>v. minimax \<lparr>computerPiece = PIECE_B, playerPiece = PIECE_A\<rparr> example_three_B 2 False = Inr (v, example_three_B) \<and>
       -1000 \<le> v \<and> v \<le> 1000"
proof -
  have "wf_board example_three_B" unfolding example_three_B_def by code_simp
  then show ?thesis using minimax_value_bounds [of example_three_B 2] by (fastforce simp: startingDepth_def)
qed

text \<open>
  C17. No legal move: on a grid whose top row is full, \<open>computeMove\<close> raises no
  error but returns column 0, the untouched initial value of \<open>move\<close>, which is not
  an open column.
\<close>

theorem computeMove_no_open_column:
  "wf_board b \<Longrightarrow> open_columns b = [] \<Longrightarrow> computeMove ai b = Inr (0, b)"
  using computeMove_cols_refinement [of b ai INT_MIN 0 "[0..<COLUMNS]"]
  by (simp add: computeMove_def open_columns_def)

theorem computeMove_no_open_column_witness:
  "computeMove \<lparr>computerPiece = PIECE_B, playerPiece = PIECE_A\<rparr> example_full_board = Inr (0, example_full_board) \<and>
   \<not> isColumnOpen example_full_board 0"
proof -
  have "wf_board example_full_board" "open_columns example_full_board = []" "\<not> isColumnOpen example_full_board 0"
    unfolding example_full_board_def by code_simp+
  then show ?thesis using computeMove_no_open_column by blast
qed

text \<open>
  C18. Search depth: \<open>computeMove\<close>'s column loop calls \<open>minimax\<close> with the full
  \<open>startingDepth\<close> after its own speculative move, so the loop values a column that wins
  at once at exactly \<open>1000 - (startingDepth - startingDepth) = 1000\<close>: it replaces an
  incumbent of value 999 by that column and keeps an incumbent of value 1000, and in both
  cases restores the board.  (The specification's depth 5 would value it at 999.)
\<close>

theorem computeMove_win_scores_1000:
  assumes "wf_board b" "valid_ai ai" "isColumnOpen b c"
    and "checkWin (play b c (computerPiece ai)) = pieceToWinState (computerPiece ai)"
  shows "computeMove_cols ai b 999 move [c] = Inr (c, b) \<and> computeMove_cols ai b 1000 move [c] = Inr (move, b)"
  unfolding computeMove_cols_refinement [OF assms(1)]
  using column_value_immediate_win [OF assms(2,4)] assms(3) by simp

theorem computeMove_win_scores_1000_witness:
  "computeMove_cols \<lparr>computerPiece = PIECE_B, playerPiece = PIECE_A\<rparr> example_three_B 999 0 [3] = Inr (3, example_three_B) \<and>
   computeMove_cols \<lparr>computerPiece = PIECE_B, playerPiece = PIECE_A\<rparr> example_three_B 1000 0 [3] = Inr (0, example_three_B)"
proof -
  have "wf_board example_three_B" "isColumnOpen example_three_B 3"
    "checkWin (play example_three_B 3 PIECE_B) = WIN_STATE_B"
    unfolding example_three_B_def by code_simp+
  moreover have "valid_ai \<lparr>computerPiece = PIECE_B, playerPiece = PIECE_A\<rparr>" by (simp add: valid_ai_def)
  ultimately show ?thesis
    using computeMove_win_scores_1000 [of example_three_B "\<lparr>computerPiece = PIECE_B, playerPiece = PIECE_A\<rparr>" 3 0]
    by simp
qed

text \<open>
  C24. Negamax symmetry: exchanging the engine's and the opponent's pieces negates the
  heuristic of every position, and at every depth the code uses the in-place search of the exchanged engine, started
  with the other player to move, returns the negated value and restores the board.
\<close>

theorem negamax_symmetry:
  assumes "valid_ai ai" "wf_board b" "depth \<le> startingDepth"
  shows "getBoardHeuristicValue (swap_ai ai) b depth = - getBoardHeuristicValue ai b depth \<and>
         (\<exists>v. minimax ai b depth mx = Inr (v, b) \<and> minimax (swap_ai ai) b depth (\<not> mx) = Inr (- v, b))"
  using getBoardHeuristicValue_swap [OF assms(1)] minimax_value_swap [OF assms(1,3)]
    minimax_refinement(1) [OF assms(2)]
  by simp

theorem negamax_symmetry_witness:
  "\<exists>v. minimax \<lparr>computerPiece = PIECE_B, playerPiece = PIECE_A\<rparr> example_three_B 1 True = Inr (v, example_three_B) \<and>
       minimax (swap_ai \<lparr>computerPiece = PIECE_B, playerPiece = PIECE_A\<rparr>) example_three_B 1 False =
         Inr (- v, example_three_B)"
proof -
  have "wf_board example_three_B" by (simp add: example_three_B_def) code_simp
  moreover have "valid_ai \<lparr>computerPiece = PIECE_B, playerPiece = PIECE_A\<rparr>" by (simp add: valid_ai_def)
  ultimately show ?thesis using negamax_symmetry [of _ example_three_B 1 True] by (simp add: startingDepth_def)
qed

text \<open>
  C25. The heuristic's window scoring against the specification's: on a 6 x 7 window,
  \<open>window_points\<close> agrees with the specification's count of three pieces and one empty
  cell exactly when the window's empty cell is not inside, i.e. the window is not one of
  \<open>C _ C C\<close>, \<open>C C _ C\<close>, \<open>P _ P P\<close>, \<open>P P _ P\<close>.
\<close>

theorem window_points_spec:
  assumes "valid_ai ai" "w \<in> set all_windows"
  shows "window_points ai b w = spec_window_points ai b w \<longleftrightarrow> window_cells b w \<notin> set (middle_gaps ai)"
proof -
  obtain x1 x2 x3 x4 where cs: "window_cells b w = [x1, x2, x3, x4]"
    using window_cells_four [OF assms(2)] by blast
  show ?thesis
    using assms(1) unfolding window_points_def spec_window_points_def middle_gaps_def Let_def cs valid_ai_def
    by (cases x1; cases x2; cases x3; cases x4; cases "computerPiece ai"; cases "playerPiece ai") simp_all
qed

theorem window_points_spec_witness:
  "window_points \<lparr>computerPiece = PIECE_B, playerPiece = PIECE_A\<rparr> example_gap_B [(5, 0), (5, 1), (5, 2), (5, 3)] \<noteq>
   spec_window_points \<lparr>computerPiece = PIECE_B, playerPiece = PIECE_A\<rparr> example_gap_B [(5, 0), (5, 1), (5, 2), (5, 3)]"
proof -
  have "[(5, 0), (5, 1), (5, 2), (5, 3)] \<in> set all_windows" by code_simp
  moreover have "window_cells example_gap_B [(5, 0), (5, 1), (5, 2), (5, 3)] \<in>
      set (middle_gaps \<lparr>computerPiece = PIECE_B, playerPiece = PIECE_A\<rparr>)"
    unfolding example_gap_B_def middle_gaps_def by code_simp
  moreover have "valid_ai \<lparr>computerPiece = PIECE_B, playerPiece = PIECE_A\<rparr>" by (simp add: valid_ai_def)
  ultimately show ?thesis using window_points_spec by blast
qed

end
