(* ===== verification/Controller.thy ===== *)
theory Controller
  imports AI
begin

text \<open>
  The game controller of \<open>src/main.cpp\<close>: the globals \<open>board\<close>, \<open>turn\<close> and
  \<open>playing\<close> as a record, the engine \<open>ai = AI(&board, PIECE_B, PIECE_A)\<close>, and
  the handlers \<open>changeTurn\<close>, \<open>handleMove\<close> (the human's drop, the terminal test,
  the engine's reply and the second terminal test), \<open>moveButtonCallback\<close> and
  \<open>resetButtonCallback\<close>.  The DOM output (\<open>updateBoard\<close>, \<open>setLabelText\<close>) and
  the logging are not modelled: they write no game state, so the three terminal
  branches of \<open>handleMove\<close> (draw, red wins, black wins), which differ only in
  their label text, have the same effect here.  An error of \<open>addMove\<close> (a click on
  a full column, undefined behaviour in C++) is the \<open>Inl\<close> result.  \<open>reachable\<close>
  collects the states that clicks on the buttons produce from the initial one, and
  \<open>clicks\<close> runs a sequence of column clicks.
\<close>

record game =
  board :: board
  turn :: piece
  playing :: bool

definition main_ai :: ai where
  "main_ai = \<lparr>computerPiece = PIECE_B, playerPiece = PIECE_A\<rparr>"

definition init_game :: game where
  "init_game = \<lparr>board = new_Board, turn = PIECE_A, playing = True\<rparr>"

definition changeTurn :: "game \<Rightarrow> game" where
  "changeTurn g = (if turn g = PIECE_A then g\<lparr>turn := PIECE_B\<rparr> else g\<lparr>turn := PIECE_A\<rparr>)"

definition finished :: "win_state \<Rightarrow> bool" where
  "finished winState \<longleftrightarrow>
     winState = WIN_STATE_DRAW \<or> winState = WIN_STATE_A \<or> winState = WIN_STATE_B"

definition handleMove :: "nat \<Rightarrow> game \<Rightarrow> error + game" where
  "handleMove col g =
     (case addMove (board g) col (turn g) of
        Inl e \<Rightarrow> Inl e
      | Inr (row, b1) \<Rightarrow>
          (let g1 = g\<lparr>board := b1\<rparr>
           in (if finished (checkWin (board g1)) then Inr (g1\<lparr>playing := False\<rparr>)
               else
                 (let g2 = changeTurn g1
                  in (case computeMove main_ai (board g2) of
                        Inl e \<Rightarrow> Inl e
                      | Inr (move, b2) \<Rightarrow>
                          (case addMove b2 move (turn g2) of
                             Inl e \<Rightarrow> Inl e
                           | Inr (row2, b3) \<Rightarrow>
                               (let g3 = g2\<lparr>board := b3\<rparr>
                                in (if finished (checkWin (board g3)) then Inr (g3\<lparr>playing := False\<rparr>)
                                    else Inr (changeTurn g3)))))))))"

definition moveButtonCallback :: "nat \<Rightarrow> game \<Rightarrow> error + game" where
  "moveButtonCallback col g = (if playing g then handleMove col g else Inr g)"

definition resetButtonCallback :: "game \<Rightarrow> game" where
  "resetButtonCallback g = g\<lparr>board := reset (board g), turn := PIECE_A, playing := True\<rparr>"

text \<open>A position for the witnesses: column 0 full, no four in a row, red to move.\<close>

definition example_full_column_game :: game where
  "example_full_column_game =
     \<lparr>board = fold (\<lambda>r b. setPiece b r 0 (if even r then PIECE_A else PIECE_B)) [0..<ROWS] empty_board,
      turn = PIECE_A, playing = True\<rparr>"

text \<open>
  A position for the witnesses: only the top cells of columns 5 and 6 are open, the
  other cells follow a pattern without four in a row, red to move.
\<close>

definition example_two_open_game :: game where
  "example_two_open_game =
     \<lparr>board = \<lparr>pieces = map (\<lambda>r. map (\<lambda>c. if r = 0 \<and> 5 \<le> c then PIECE_EMPTY
                                            else if even (r div 2 + c) then PIECE_A else PIECE_B)
                                   [0..<COLUMNS]) [0..<ROWS]\<rparr>,
      turn = PIECE_A, playing = True\<rparr>"

text \<open>
  The page states reachable from the loaded page by clicks on the column buttons (ids 0
  to 6) and on the reset button.
\<close>

inductive reachable :: "game \<Rightarrow> bool" where
  start: "reachable init_game"
| click: "reachable g \<Longrightarrow> col < COLUMNS \<Longrightarrow> moveButtonCallback col g = Inr g' \<Longrightarrow> reachable g'"
| reset: "reachable g \<Longrightarrow> reachable (resetButtonCallback g)"

text \<open>
  The invariant of the controller: the grid has its shape and obeys gravity, a game
  in progress is at red's (the human's) turn and not finished, and a stopped game
  is finished.
\<close>

definition game_inv :: "game \<Rightarrow> bool" where
  "game_inv g \<longleftrightarrow>
     wf_board (board g) \<and> gravity (board g) \<and>
     (playing g \<longrightarrow> turn g = PIECE_A \<and> checkWin (board g) = WIN_STATE_NOT_FINISHED) \<and>
     (\<not> playing g \<longrightarrow> finished (checkWin (board g)))"

text \<open>
  Piece counts: red has moved as often as black, or once more; while a game is in
  progress the counts are equal (red is to move).
\<close>

definition balanced :: "game \<Rightarrow> bool" where
  "balanced g \<longleftrightarrow>
     count_piece (board g) PIECE_B \<le> count_piece (board g) PIECE_A \<and>
     count_piece (board g) PIECE_A \<le> Suc (count_piece (board g) PIECE_B) \<and>
     (playing g \<longrightarrow> count_piece (board g) PIECE_A = count_piece (board g) PIECE_B)"

text \<open>
  The counts after one successful \<open>handleMove\<close> from grid \<open>b\<close>: one more red piece,
  and one more black piece unless the human's move ended the game.
\<close>

definition move_counts :: "board \<Rightarrow> game \<Rightarrow> bool" where
  "move_counts b g' \<longleftrightarrow>
     count_piece (board g') PIECE_A = Suc (count_piece b PIECE_A) \<and>
     (count_piece (board g') PIECE_B = count_piece b PIECE_B \<and> \<not> playing g' \<and>
        Suc (count_piece (board g') PIECE_EMPTY) = count_piece b PIECE_EMPTY \<or>
      count_piece (board g') PIECE_B = Suc (count_piece b PIECE_B) \<and>
        Suc (Suc (count_piece (board g') PIECE_EMPTY)) = count_piece b PIECE_EMPTY)"

text \<open>
  The page's event loop on a sequence of column clicks (\<open>setMoveButtonCallbacks\<close>
  binds each column button to \<open>moveButtonCallback\<close>); the first failing click stops it.
\<close>

fun clicks :: "nat list \<Rightarrow> game \<Rightarrow> error + game" where
  "clicks [] g = Inr g"
| "clicks (col # cols) g =
     (case moveButtonCallback col g of Inl e \<Rightarrow> Inl e | Inr g' \<Rightarrow> clicks cols g')"

section \<open>The invariant\<close>

lemma finished_iff: "finished ws \<longleftrightarrow> ws \<noteq> WIN_STATE_NOT_FINISHED"
  by (cases ws) (simp_all add: finished_def)

lemma game_inv_init: "game_inv init_game"
  by (simp add: game_inv_def init_game_def new_Board_eq gravity_empty_board checkWin_empty_board)

lemma game_inv_reset: "wf_board (board g) \<Longrightarrow> game_inv (resetButtonCallback g)"
  by (simp add: game_inv_def resetButtonCallback_def reset_eq_empty_board gravity_empty_board
                checkWin_empty_board)

lemma handleMove_full:
  "gravity (board g) \<Longrightarrow> col < COLUMNS \<Longrightarrow> \<not> isColumnOpen (board g) col \<Longrightarrow>
   handleMove col g = Inl InvalidMove"
  by (simp add: handleMove_def addMove_full)

lemma handleMove_open:
  assumes inv: "game_inv g" and pl: "playing g" and col: "col < COLUMNS" "isColumnOpen (board g) col"
  shows "\<exists>g'. handleMove col g = Inr g' \<and> game_inv g' \<and> move_counts (board g) g'"
proof -
  have wf: "wf_board (board g)" and gr: "gravity (board g)" and A: "turn g = PIECE_A"
    using inv pl by (simp_all add: game_inv_def)
  define b1 where "b1 = setPiece (board g) (ROWS - 1 - height (board g) col) col PIECE_A"
  note M1 = addMove_open_gravity [OF wf gr col, of PIECE_A, folded b1_def]
  have a1: "addMove (board g) col PIECE_A = Inr (ROWS - 1 - height (board g) col, b1)"
    using M1(1) by simp
  note C1 = count_addMove [OF wf col _ a1]
  show ?thesis
  proof (cases "finished (checkWin b1)")
    case True
    with M1(1) A C1 show ?thesis
      by (simp add: handleMove_def game_inv_def move_counts_def M1(4,5))
  next
    case False
    then have nf: "checkWin b1 = WIN_STATE_NOT_FINISHED" by (simp add: finished_iff)
    obtain move where cm: "computeMove main_ai b1 = Inr (move, b1)" and mv: "move < COLUMNS" "isColumnOpen b1 move"
      using computeMove_open_column [OF M1(5) open_columns_nonempty [OF nf]] by blast
    define b3 where "b3 = setPiece b1 (ROWS - 1 - height b1 move) move PIECE_B"
    note M2 = addMove_open_gravity [OF M1(5,4) mv, of PIECE_B, folded b3_def]
    have a2: "addMove b1 move PIECE_B = Inr (ROWS - 1 - height b1 move, b3)"
      using M2(1) by simp
    note C2 = count_addMove [OF M1(5) mv _ a2]
    have mc: "board g' = b3 \<Longrightarrow> move_counts (board g) g'" for g'
      using C1 C2 by (simp add: move_counts_def)
    have t2: "turn (changeTurn (g\<lparr>board := b1\<rparr>)) = PIECE_B" using A by (simp add: changeTurn_def)
    show ?thesis
    proof (cases "finished (checkWin b3)")
      case True
      with M1(1) M2(1) A False cm t2 mc show ?thesis
        by (simp add: handleMove_def game_inv_def M2(4,5) changeTurn_def)
    next
      case False
      with M1(1) M2(1) A pl \<open>\<not> finished (checkWin b1)\<close> cm t2 mc show ?thesis
        by (simp add: handleMove_def game_inv_def M2(4,5) changeTurn_def finished_iff)
    qed
  qed
qed

lemma moveButtonCallback_step:
  assumes "game_inv g" "col < COLUMNS" "moveButtonCallback col g = Inr g'"
  shows "game_inv g' \<and> (playing g \<longrightarrow> move_counts (board g) g') \<and> (\<not> playing g \<longrightarrow> g' = g)"
proof (cases "playing g")
  case False
  with assms show ?thesis by (simp add: moveButtonCallback_def)
next
  case True
  have "isColumnOpen (board g) col"
    using assms handleMove_full [of g col] True by (auto simp: moveButtonCallback_def game_inv_def)
  with handleMove_open [OF assms(1) True assms(2)] assms(3) True show ?thesis
    by (auto simp: moveButtonCallback_def)
qed

lemma moveButtonCallback_inv:
  "game_inv g \<Longrightarrow> col < COLUMNS \<Longrightarrow> moveButtonCallback col g = Inr g' \<Longrightarrow> game_inv g'"
  using moveButtonCallback_step by blast

lemma reachable_game_inv: "reachable g \<Longrightarrow> game_inv g"
proof (induction rule: reachable.induct)
  case start
  show ?case by (rule game_inv_init)
next
  case (click g col g')
  then show ?case using moveButtonCallback_inv by blast
next
  case (reset g)
  then have "wf_board (board g)" by (simp add: game_inv_def)
  then show ?case by (rule game_inv_reset)
qed

lemma balanced_init: "balanced init_game"
  by (simp add: balanced_def init_game_def new_Board_eq count_empty_board_piece)

lemma balanced_reset: "wf_board (board g) \<Longrightarrow> balanced (resetButtonCallback g)"
  by (simp add: balanced_def resetButtonCallback_def reset_eq_empty_board count_empty_board_piece)

lemma balanced_move: "balanced g \<Longrightarrow> playing g \<Longrightarrow> move_counts (board g) g' \<Longrightarrow> balanced g'"
  by (auto simp: balanced_def move_counts_def)

lemma reachable_balanced: "reachable g \<Longrightarrow> balanced g"
proof (induction rule: reachable.induct)
  case start
  show ?case by (rule balanced_init)
next
  case (click g col g')
  then show ?case
    using moveButtonCallback_step [OF reachable_game_inv [OF click.hyps(1)] click.hyps(2,3)]
      balanced_move by auto
next
  case (reset g)
  then have "wf_board (board g)" using reachable_game_inv by (simp add: game_inv_def)
  then show ?case by (rule balanced_reset)
qed

lemma clicks_stopped: "\<not> playing g \<Longrightarrow> clicks cols g = Inr g"
  by (induction cols) (simp_all add: moveButtonCallback_def)

lemma clicks_playing_count:
  "game_inv g \<Longrightarrow> \<forall>c \<in> set cols. c < COLUMNS \<Longrightarrow> clicks cols g = Inr g' \<Longrightarrow> playing g' \<Longrightarrow>
   count_piece (board g') PIECE_EMPTY + 2 * length cols = count_piece (board g) PIECE_EMPTY"
proof (induction cols arbitrary: g)
  case Nil
  then show ?case by simp
next
  case (Cons col cols)
  obtain g1 where g1: "moveButtonCallback col g = Inr g1" and rest: "clicks cols g1 = Inr g'"
    using Cons.prems(3) by (auto split: sum.splits)
  note S = moveButtonCallback_step [OF Cons.prems(1) _ g1]
  have "playing g1" using clicks_stopped [of g1 cols] rest Cons.prems(4) by auto
  moreover have "playing g" using S \<open>playing g1\<close> Cons.prems(2) by auto
  ultimately have "Suc (Suc (count_piece (board g1) PIECE_EMPTY)) = count_piece (board g) PIECE_EMPTY"
    using S Cons.prems(2) by (auto simp: move_counts_def)
  moreover have "count_piece (board g') PIECE_EMPTY + 2 * length cols = count_piece (board g1) PIECE_EMPTY"
    using Cons.IH [OF _ _ rest Cons.prems(4)] S Cons.prems(2) by simp
  ultimately show ?case by simp
qed

lemma reachable_game_stops:
  assumes "reachable g" "\<forall>c \<in> set cols. c < COLUMNS" "clicks cols g = Inr g'" "21 < length cols"
  shows "\<not> playing g'"
proof
  assume "playing g'"
  have inv: "game_inv g" using assms(1) by (rule reachable_game_inv)
  then have "count_piece (board g) PIECE_EMPTY \<le> 42"
    using count_piece_le [of "board g" PIECE_EMPTY] by (simp add: game_inv_def ROWS_def COLUMNS_def)
  with clicks_playing_count [OF inv assms(2,3) \<open>playing g'\<close>] assms(4) show False by simp
qed

section \<open>Properties of the controller\<close>

text \<open>
  C7. Invariant of every reachable page state: the grid keeps its shape and obeys
  gravity, a game in progress is at red's turn and not finished, and a stopped game
  is finished.
\<close>

theorem controller_invariant:
  assumes "reachable g"
  shows "wf_board (board g) \<and> gravity (board g) \<and>
         (playing g \<longrightarrow> turn g = PIECE_A \<and> checkWin (board g) = WIN_STATE_NOT_FINISHED) \<and>
         (\<not> playing g \<longrightarrow> checkWin (board g) \<noteq> WIN_STATE_NOT_FINISHED)"
  using reachable_game_inv [OF assms] by (simp add: game_inv_def finished_iff)

theorem controller_invariant_witness:
  "playing init_game \<and> turn init_game = PIECE_A \<and> checkWin (board init_game) = WIN_STATE_NOT_FINISHED"
  using controller_invariant [OF reachable.start] by (simp add: init_game_def)

text \<open>
  C6. The engine never plays into a full column: in a reachable state of a game in
  progress, a click on an open column always succeeds (the human's drop, the engine's
  reply and both terminal tests run without undefined behaviour) and leads to a
  reachable state.
\<close>

theorem click_open_column_succeeds:
  assumes "reachable g" "playing g" "col < COLUMNS" "isColumnOpen (board g) col"
  shows "\<exists>g'. moveButtonCallback col g = Inr g' \<and> reachable g'"
proof -
  obtain g' where "handleMove col g = Inr g'"
    using handleMove_open [OF reachable_game_inv [OF assms(1)] assms(2-4)] by blast
  with assms show ?thesis by (auto simp: moveButtonCallback_def intro: reachable.click)
qed

theorem click_open_column_succeeds_witness:
  "\<exists>g'. moveButtonCallback 3 init_game = Inr g' \<and> reachable g'"
proof -
  have "isColumnOpen (board init_game) 3" "playing init_game"
    by (simp_all add: init_game_def new_Board_eq) code_simp
  then show ?thesis using click_open_column_succeeds [OF reachable.start] by (simp add: COLUMNS_def)
qed

text \<open>
  C16. A click on a full column is not guarded: \<open>moveButtonCallback\<close> and
  \<open>handleMove\<close> call \<open>addMove\<close> without checking \<open>isColumnOpen\<close>, so in any
  state of a game in progress a click on a full column reaches the fall-through of
  \<open>addMove\<close> (undefined behaviour in C++, \<open>InvalidMove\<close> here).
\<close>

theorem click_full_column_invalid:
  assumes "game_inv g" "playing g" "col < COLUMNS" "\<not> isColumnOpen (board g) col"
  shows "moveButtonCallback col g = Inl InvalidMove"
  using assms handleMove_full [of g col] by (simp add: moveButtonCallback_def game_inv_def)

theorem click_full_column_invalid_witness:
  "moveButtonCallback 0 example_full_column_game = Inl InvalidMove"
proof -
  have "game_inv example_full_column_game" "playing example_full_column_game"
    "\<not> isColumnOpen (board example_full_column_game) 0"
    unfolding example_full_column_game_def game_inv_def finished_def by code_simp+
  then show ?thesis using click_full_column_invalid [of example_full_column_game 0]
    by (simp add: COLUMNS_def)
qed

text \<open>
  C22. Piece balance: in every reachable state red has as many pieces as black or one
  more, and while a game is in progress the two counts are equal.
\<close>

theorem piece_balance:
  assumes "reachable g"
  shows "count_piece (board g) PIECE_B \<le> count_piece (board g) PIECE_A \<and>
         count_piece (board g) PIECE_A \<le> Suc (count_piece (board g) PIECE_B) \<and>
         (playing g \<longrightarrow> count_piece (board g) PIECE_A = count_piece (board g) PIECE_B)"
  using reachable_balanced [OF assms] by (simp add: balanced_def)

theorem piece_balance_witness:
  "count_piece (board init_game) PIECE_A = count_piece (board init_game) PIECE_B"
  using piece_balance [OF reachable.start] by (simp add: init_game_def)

text \<open>
  C23. A game ends: every click of a game in progress that continues it fills two cells
  (the human's and the engine's), so from a state of the invariant with \<open>n\<close> empty
  cells any run of more than \<open>n / 2\<close> successful clicks has stopped the game.
\<close>

theorem game_stops:
  assumes "game_inv g" "\<forall>c \<in> set cols. c < COLUMNS" "clicks cols g = Inr g'"
    and "count_piece (board g) PIECE_EMPTY < 2 * length cols"
  shows "\<not> playing g'"
  using clicks_playing_count [OF assms(1-3)] assms(4) by auto

theorem game_stops_witness:
  "\<exists>g'. clicks [5, 6] example_two_open_game = Inr g' \<and> \<not> playing g'"
proof -
  have inv: "game_inv example_two_open_game"
    unfolding example_two_open_game_def game_inv_def finished_def by code_simp
  have cnt: "count_piece (board example_two_open_game) PIECE_EMPTY = 2"
    unfolding example_two_open_game_def count_piece_def by code_simp
  have "case clicks [5, 6] example_two_open_game of Inl e \<Rightarrow> False | Inr g' \<Rightarrow> True"
    unfolding example_two_open_game_def by code_simp
  then obtain g' where r: "clicks [5, 6] example_two_open_game = Inr g'"
    by (auto split: sum.splits)
  have "\<not> playing g'" using game_stops [OF inv _ r] cnt by (simp add: COLUMNS_def)
  with r show ?thesis by blast
qed

end
