(* ===== verification/Spec2Isabelle.thy ===== *)
theory Spec2Isabelle
  imports Controller
begin

text \<open>
  \<^bold>\<open>Connect-Four: the board engine, the minimax search and the page controller.\<close>

  \<^bold>\<open>The program.\<close>  \<open>src/board.h\<close> (class \<open>Board\<close>) owns a 6 x 7 grid of piece
  codes and implements gravity placement and terminal-state detection.
  \<open>src/ai.h\<close> (class \<open>AI\<close>) holds a pointer to that board and its own and the
  opponent's piece, and chooses a column by exhaustive depth-limited minimax, using the
  board as scratch space (drop, recurse, undo).  \<open>src/main.cpp\<close> keeps the globals
  \<open>board\<close>, \<open>turn\<close>, \<open>playing\<close> and \<open>ai\<close>: a click on a column button runs
  \<open>handleMove\<close> (the human's drop, the terminal test, the engine's reply and the second
  terminal test), the reset button runs \<open>resetButtonCallback\<close>; everything else is DOM
  output and logging.

  \<^bold>\<open>Theories and what they model.\<close>
  \<^item> \<open>Prelude\<close>: the cell and window types, \<open>INT_MIN\<close>/\<open>INT_MAX\<close> (the search's
    \<open>std::numeric_limits<int>\<close> sentinels), the collection \<open>board_simps\<close>, and generic
    lemmas on nested list update (the two-dimensional array), on folds of max/min and of
    the strict-maximum selection (the search loops), on sums (the heuristic), and on
    \<open>settled\<close> lists (a column obeying gravity, read bottom-up).
  \<^item> \<open>Board\<close> (\<open>board.h\<close>): \<open>piece\<close>, \<open>win_state\<close>, the record \<open>board\<close> with field
    \<open>pieces\<close> (rows, row 0 on top), and \<open>getPiece\<close>, \<open>setPiece\<close>, \<open>reset\<close> (the
    nested loops as folds), \<open>new_Board\<close> (the constructor: \<open>reset\<close> on uninitialised
    memory), \<open>addMove\<close>/\<open>addMove_loop\<close> (the bottom-up row loop), \<open>checkWin\<close> (the
    window lists \<open>vertical_windows\<close>, \<open>horizontal_windows\<close>, \<open>diagonal_windows\<close> in
    the order of its nested loops, scanned by \<open>checkWin_scan\<close>, then the top-row test),
    \<open>isColumnOpen\<close>, \<open>winStateToPiece\<close>, \<open>pieceToWinState\<close>.  The fall-through of
    \<open>addMove\<close> on a full column (no return value in C++) is the error \<open>InvalidMove\<close>.
    Invariants: \<open>wf_board\<close> (6 rows of 7 cells) and \<open>gravity\<close>; abstraction of a
    column as its stack of pieces (\<open>column\<close>, \<open>height\<close>, \<open>stack\<close>).
  \<^item> \<open>Win\<close>: the specification of \<open>checkWin\<close> without loops (four-in-a-row in each
    orientation anywhere on the grid, an open top-row cell) and the proof that the window
    lists enumerate exactly these lines.
  \<^item> \<open>Game_Tree\<close>: the abstract specification of minimax: game trees and their value
    \<open>tree_value\<close> for the maximiser and the minimiser, the empty max and min being the
    code's initial \<open>bestValue\<close>s \<open>INT_MIN\<close> and \<open>INT_MAX\<close>.
  \<^item> \<open>AI\<close> (\<open>ai.h\<close>): the record \<open>ai\<close> of the two pieces (the board is passed and
    returned explicitly), \<open>startingDepth\<close>, \<open>window_points\<close> and
    \<open>getBoardHeuristicValue\<close>, the mutually recursive \<open>minimax\<close>/\<open>minimax_cols\<close>
    (both column loops of the source, selected by the flag \<open>mx\<close>; termination by the
    measure (depth, remaining columns)), and \<open>computeMove\<close>/\<open>computeMove_cols\<close>.  Every
    loop body drops with \<open>addMove\<close>, recurses and undoes with \<open>setPiece \<dots> PIECE_EMPTY\<close>
    on the same board value, as the code does on the shared object.  The reference
    semantics \<open>game_tree\<close> works on copies (\<open>play\<close>) and \<open>minimax_value\<close>,
    \<open>column_value\<close> evaluate it.  \<open>console.log\<close> is not modelled.
  \<^item> \<open>Controller\<close> (\<open>main.cpp\<close>): the record \<open>game\<close> of the globals, \<open>main_ai\<close>,
    \<open>init_game\<close>, \<open>changeTurn\<close>, \<open>handleMove\<close>, \<open>moveButtonCallback\<close>,
    \<open>resetButtonCallback\<close>, the inductive set \<open>reachable\<close> of page states (clicks on
    the column and reset buttons) with the invariant \<open>game_inv\<close>, \<open>clicks\<close> (a run of
    column clicks), and the piece counts \<open>count_piece\<close> (in \<open>Board\<close>), \<open>balanced\<close>
    and \<open>move_counts\<close>.

  \<^bold>\<open>What the lemmas show.\<close>
  \<^item> Terminal states (C1, C8--C11, C21): \<open>checkWin\<close> answers not-finished exactly when
    no player has four in a row and the top row is open, draw exactly when no player has
    four in a row and the top row is full; reported wins are real; the scan order
    decides simultaneous lines of both players (vertical, then horizontal, then
    diagonal); and its result depends only on the cells inside the grid.
  \<^item> Search (C2, C3, C5, C12--C14, C17, C18, C24, C25): the in-place \<open>minimax\<close> never
    fails, computes the game-tree value and restores the board exactly (undo
    discipline); \<open>computeMove\<close> returns the lowest open column of maximal value and
    restores the board; an immediate win is always taken, and \<open>computeMove\<close>'s loop values
    it at exactly 1000 (search at the full \<open>startingDepth\<close>); the heuristic of an
    unfinished position is within [-207, 207] while forced outcomes score beyond 994 in
    magnitude; all search values lie in [-1000, 1000], so the int sentinels never escape
    and no 32-bit arithmetic overflows; with no open column \<open>computeMove\<close> returns 0;
    exchanging the two pieces (\<open>swap_ai\<close>) negates the heuristic and the search value
    (negamax symmetry; it needs the depth bound, since \<open>-INT_MIN \<noteq> INT_MAX\<close> and only
    bounded values keep the sentinels out); the code's window scoring agrees with the
    specification's (\<open>spec_window_points\<close>) exactly off the windows with the empty cell
    inside (\<open>middle_gaps\<close>).
  \<^item> Board operations (C4, C15, C19, C20): gravity placement refines a push on the
    column's stack and keeps gravity; a full column fails with \<open>InvalidMove\<close>;
    \<open>reset\<close> gives the empty grid on every well-shaped board (and so does the
    constructor, lemma \<open>new_Board_eq\<close>); the piece/win-state maps round trip.
  \<^item> Controller (C6, C7, C16, C22, C23): in every reachable state the grid keeps its shape
    and gravity, a game in progress is at red's turn and unfinished, a stopped game is
    finished; a click on an open column always succeeds (the engine never plays into a
    full column); a click on a full column is not guarded (undefined behaviour in C++);
    red has as many pieces as black or one more, equally many while a game is in
    progress; every click that continues a game fills two cells, so a game stops within
    \<open>n / 2\<close> clicks from \<open>n\<close> empty cells (the lemma \<open>reachable_game_stops\<close>: within 21
    clicks from any reachable state).

  \<^bold>\<open>Bounds.\<close>  No fuel is needed: every loop runs over a fixed list of rows, columns
  or windows, and the search recursion decreases the depth, which starts at
  \<open>startingDepth = 6\<close> below the candidate move of \<open>computeMove\<close>.  The value bounds
  are stated for depths up to \<open>startingDepth\<close>, the only depths the code uses.  Values
  are HOL integers; the bounds theorems show they stay far inside the 32-bit range.

  \<^bold>\<open>Not modelled.\<close>  DOM construction and rendering (\<open>createImageElement\<close>,
  \<open>createImageRow\<close>, \<open>createTable\<close>, \<open>updateBoard\<close>, \<open>setLabelText\<close>), logging
  (\<open>logOnline\<close>, \<open>console.log\<close>), the label text of \<open>changeTurn\<close> and
  \<open>handleMove\<close>, and the parsing of a button's id (\<open>atoi\<close>): the buttons' ids are the
  columns 0 to 6.  Out-of-range \<open>getPiece\<close>/\<open>setPiece\<close> (undefined in C++) is not
  given a meaning; instead C21 shows \<open>checkWin\<close> never depends on such a cell, and the
  in-range lemmas of \<open>Board\<close> and \<open>AI\<close> show the other accesses stay inside the grid.

  \<^bold>\<open>Plan for the next sittings.\<close>  Model the label texts and log lines of
  \<open>changeTurn\<close> and \<open>handleMove\<close> as an output trace, so that the log of the engine's
  move (which prints the human's column with the engine's row, main.cpp line 140) is a
  theorem; give out-of-range \<open>getPiece\<close>/\<open>setPiece\<close> an explicit error branch.
\<close>

end
